theory Spec2Isabelle
  imports Main "HOL-Library.AList"
begin

section \<open>Python values and the object store\<close>

text \<open>
  The configuration classes of \<^verbatim>\<open>config.py\<close> keep their data in Python dictionaries,
  which are mutable objects shared by reference. A dictionary is therefore an object of
  a store, named by its address, and a value that refers to a dictionary holds the
  address. JSON data has string keys only, and a Python dictionary keeps its keys in
  insertion order: a dictionary is an association list, \<open>d[k] = v\<close> is
  \<^const>\<open>AList.update\<close> (replace in place, or append) and \<open>del d[k]\<close> is
  \<^const>\<open>AList.delete\<close>. Lists are never mutated by the code and are plain values.
  JSON floating point numbers are not modelled.
\<close>

type_synonym addr = nat

datatype val = VNone | VBool bool | VInt int | VStr string | VList "val list" | VDict addr

type_synonym dict = "(string \<times> val) list"

text \<open>The text of a file, once parsed: JSON trees.\<close>

datatype json = JNull | JBool bool | JInt int | JStr string | JArr "json list"
  | JObj "(string \<times> json) list"

text \<open>
  Exceptions are values. \<open>EncodeError\<close> stands for what \<open>json.dump\<close> raises on a
  circular or too deeply nested structure (ValueError, RecursionError).
  \<open>NotAMapping\<close> is not a Python exception: it marks the places where the model is
  restricted to nested values that are mappings (see \<open>SubconfigMixin_sub\<close>).
\<close>

datatype error = KeyError string | TypeError | AttributeError | RuntimeError
  | ConfigException | JSONDecodeError | FileNotFoundError | EncodeError | NotAMapping
  | GuildStateException | GuildRequiredException | FactoryError

text \<open>
  A file holds a JSON object (\<open>Doc\<close>, its members in order), or text that does not
  parse (\<open>Corrupt\<close>), and has a modification time. Files that hold valid JSON other
  than an object are outside the model. Time is a counter of clock ticks.
\<close>

datatype fcontent = Doc "(string \<times> json) list" | Corrupt

record diskfile =
  content :: fcontent
  mtime :: nat

text \<open>The fields of a \<open>JsonConfig\<close> object (class JsonConfig, \<open>__init__\<close>).\<close>

record jsonconfig =
  opts :: addr
  path :: string
  template :: "addr option"
  check_date :: bool
  last_readwrite_date :: "nat option"

text \<open>
  A reference to a configuration object. A \<open>SubConfig\<close> assigns \<open>parent\<close> and
  \<open>name\<close> once, in its constructor, and never rebinds them: the reference carries
  them, together with the identity of the object. The field \<open>opts\<close> of a SubConfig is
  rebound by \<open>clear\<close>, so it lives in the store under that identity.
\<close>

datatype cref = JsonConfigRef nat | SubConfigRef nat cref string

text \<open>The fields of a \<open>JsonConfigDB\<close> object; \<open>db\<close> maps an id to its JsonConfig.\<close>

record jsonconfigdb =
  db_path :: string
  db :: "(string \<times> cref) list"
  db_template :: "addr option"
  unique_template :: bool

text \<open>
  The whole state: the dictionaries, the configuration objects, the file system, the
  clock, and the nesting depth below the top-level mapping that one \<open>json.dump\<close> can
  follow before the interpreter gives up.
\<close>

record world =
  heap :: "addr \<Rightarrow> dict"
  next_addr :: addr
  configs :: "nat \<Rightarrow> jsonconfig"
  next_config :: nat
  views :: "nat \<Rightarrow> addr"
  next_view :: nat
  stores :: "nat \<Rightarrow> jsonconfigdb"
  next_store :: nat
  fs :: "string \<Rightarrow> diskfile option"
  now :: nat
  depth_limit :: nat

text \<open>
  A call returns a value or raises, and in both cases leaves a state behind: what it
  had mutated before raising stays mutated.
\<close>

type_synonym 'a result = "(error + 'a) \<times> world"

definition and_then :: "'a result \<Rightarrow> ('a \<Rightarrow> world \<Rightarrow> 'b result) \<Rightarrow> 'b result" where
  "and_then r f = (case r of (Inl e, w) \<Rightarrow> (Inl e, w) | (Inr x, w) \<Rightarrow> f x w)"

text \<open>A new dictionary object: \<open>{}\<close>, \<open>dict(d)\<close>, or one built by the JSON parser.\<close>

definition alloc :: "dict \<Rightarrow> world \<Rightarrow> addr \<times> world" where
  "alloc d w =
     (next_addr w, w\<lparr>heap := (heap w)(next_addr w := d), next_addr := Suc (next_addr w)\<rparr>)"

definition contains :: "('k \<times> 'a) list \<Rightarrow> 'k \<Rightarrow> bool" where
  "contains d k = (map_of d k \<noteq> None)"

subsection \<open>json.load and json.dump\<close>

text \<open>
  \<open>json.load\<close> builds a new dictionary for every JSON object, inserting the members
  from left to right (a repeated key keeps its first position and its last value).
\<close>

fun thaw :: "json \<Rightarrow> world \<Rightarrow> val \<times> world"
  and thaw_list :: "json list \<Rightarrow> world \<Rightarrow> val list \<times> world"
  and thaw_items :: "dict \<Rightarrow> (string \<times> json) list \<Rightarrow> world \<Rightarrow> dict \<times> world"
where
  "thaw JNull w = (VNone, w)"
| "thaw (JBool b) w = (VBool b, w)"
| "thaw (JInt i) w = (VInt i, w)"
| "thaw (JStr s) w = (VStr s, w)"
| "thaw (JArr js) w = (case thaw_list js w of (vs, w1) \<Rightarrow> (VList vs, w1))"
| "thaw (JObj ms) w =
     (case thaw_items [] ms w of (d, w1) \<Rightarrow> (case alloc d w1 of (a, w2) \<Rightarrow> (VDict a, w2)))"
| "thaw_list [] w = ([], w)"
| "thaw_list (j # js) w =
     (case thaw j w of (v, w1) \<Rightarrow> (case thaw_list js w1 of (vs, w2) \<Rightarrow> (v # vs, w2)))"
| "thaw_items acc [] w = (acc, w)"
| "thaw_items acc (m # ms) w =
     (case thaw (snd m) w of (v, w1) \<Rightarrow> thaw_items (AList.update (fst m) v acc) ms w1)"

text \<open>
  \<open>json.dump\<close> follows the references. The first argument bounds the nesting of
  mappings it can still enter; a circular structure exhausts any bound.
\<close>

fun freeze :: "nat \<Rightarrow> (addr \<Rightarrow> dict) \<Rightarrow> val \<Rightarrow> json option"
  and freeze_list :: "nat \<Rightarrow> (addr \<Rightarrow> dict) \<Rightarrow> val list \<Rightarrow> json list option"
  and freeze_items :: "nat \<Rightarrow> (addr \<Rightarrow> dict) \<Rightarrow> dict \<Rightarrow> (string \<times> json) list option"
where
  "freeze n h VNone = Some JNull"
| "freeze n h (VBool b) = Some (JBool b)"
| "freeze n h (VInt i) = Some (JInt i)"
| "freeze n h (VStr s) = Some (JStr s)"
| "freeze n h (VList vs) = map_option JArr (freeze_list n h vs)"
| "freeze 0 h (VDict a) = None"
| "freeze (Suc n) h (VDict a) = map_option JObj (freeze_items n h (h a))"
| "freeze_list n h [] = Some []"
| "freeze_list n h (v # vs) =
     (case freeze n h v of None \<Rightarrow> None
      | Some j \<Rightarrow> (case freeze_list n h vs of None \<Rightarrow> None | Some js \<Rightarrow> Some (j # js)))"
| "freeze_items n h [] = Some []"
| "freeze_items n h (m # ms) =
     (case freeze n h (snd m) of None \<Rightarrow> None
      | Some j \<Rightarrow>
          (case freeze_items n h ms of None \<Rightarrow> None | Some js \<Rightarrow> Some ((fst m, j) # js)))"

subsection \<open>JsonConfig\<close>

text \<open>\<open>__update_last_date\<close>: the clock is read, and kept.\<close>

definition update_last_date :: "nat \<Rightarrow> world \<Rightarrow> world" where
  "update_last_date n w =
     w\<lparr>configs := (configs w)(n := (configs w n)\<lparr>last_readwrite_date := Some (now w)\<rparr>)\<rparr>"

text \<open>
  The last three lines of \<open>write\<close>: the file is opened for writing, which creates or
  truncates it, \<open>opts\<close> is dumped into it, and the date is updated. A dump that fails
  has already truncated the file and leaves text that does not parse. Failures of the
  file system itself (a missing directory, permissions) are not modelled.
\<close>

definition dump_opts :: "nat \<Rightarrow> world \<Rightarrow> unit result" where
  "dump_opts n w =
     (let c = configs w n in
      case freeze_items (depth_limit w) (heap w) (heap w (opts c)) of
        None \<Rightarrow>
          (Inl EncodeError, w\<lparr>fs := (fs w)(path c \<mapsto> \<lparr>content = Corrupt, mtime = now w\<rparr>)\<rparr>)
      | Some ms \<Rightarrow>
          (Inr (),
           update_last_date n
             (w\<lparr>fs := (fs w)(path c \<mapsto> \<lparr>content = Doc ms, mtime = now w\<rparr>)\<rparr>)))"

text \<open>
  \<open>JsonConfig.write\<close>. Comparing the file's time with a date that was never set
  (\<open>None\<close>) is a TypeError in Python.
\<close>

definition JsonConfig_write :: "nat \<Rightarrow> world \<Rightarrow> unit result" where
  "JsonConfig_write n w =
     (let c = configs w n in
      case fs w (path c) of
        None \<Rightarrow> dump_opts n w
      | Some f \<Rightarrow>
          if check_date c then
            (case last_readwrite_date c of
               None \<Rightarrow> (Inl TypeError, w)
             | Some d \<Rightarrow> if mtime f > d then (Inl ConfigException, w) else dump_opts n w)
          else dump_opts n w)"

definition set_opts :: "nat \<Rightarrow> addr \<Rightarrow> world \<Rightarrow> world" where
  "set_opts n a w = w\<lparr>configs := (configs w)(n := (configs w n)\<lparr>opts := a\<rparr>)\<rparr>"

definition JsonConfig_clear :: "nat \<Rightarrow> world \<Rightarrow> unit result" where
  "JsonConfig_clear n w = (case alloc [] w of (a, w1) \<Rightarrow> (Inr (), set_opts n a w1))"

text \<open>\<open>d[k] = v\<close> on the dictionary at an address.\<close>

definition setitem :: "addr \<Rightarrow> string \<Rightarrow> val \<Rightarrow> world \<Rightarrow> world" where
  "setitem a k v w = w\<lparr>heap := (heap w)(a := AList.update k v (heap w a))\<rparr>"

definition delitem :: "addr \<Rightarrow> string \<Rightarrow> world \<Rightarrow> world" where
  "delitem a k w = w\<lparr>heap := (heap w)(a := AList.delete k (heap w a))\<rparr>"

text \<open>
  The loop of \<open>load\<close> over \<open>self.template.items()\<close>: a key that \<open>opts\<close> lacks gets
  \<open>template[key]\<close>, the very object the template holds. The flag is
  \<open>template_additions\<close>.
\<close>

fun add_missing :: "nat \<Rightarrow> addr \<Rightarrow> dict \<Rightarrow> bool \<Rightarrow> world \<Rightarrow> bool result" where
  "add_missing n t [] additions w = (Inr additions, w)"
| "add_missing n t (kv # items) additions w =
     (if \<not> contains (heap w (opts (configs w n))) (fst kv) then
        (case map_of (heap w t) (fst kv) of
           None \<Rightarrow> (Inl (KeyError (fst kv)), w)
         | Some x \<Rightarrow> add_missing n t items True (setitem (opts (configs w n)) (fst kv) x w))
      else add_missing n t items additions w)"

text \<open>
  \<open>JsonConfig.load\<close>: \<open>json.load\<close> builds the dictionaries, \<open>dict(...)\<close> copies the
  top one, the date is updated, then the template is applied.
\<close>

definition JsonConfig_load :: "nat \<Rightarrow> world \<Rightarrow> unit result" where
  "JsonConfig_load n w =
     (case fs w (path (configs w n)) of
        None \<Rightarrow> (Inl FileNotFoundError, w)
      | Some f \<Rightarrow>
          (case content f of
             Corrupt \<Rightarrow> (Inl JSONDecodeError, w)
           | Doc ms \<Rightarrow>
               (case thaw_items [] ms w of (d, w1) \<Rightarrow>
                (case alloc d w1 of (a0, w2) \<Rightarrow>
                 (case alloc (heap w2 a0) w2 of (a, w3) \<Rightarrow>
                    (let w4 = update_last_date n (set_opts n a w3) in
                     case template (configs w4 n) of
                       None \<Rightarrow> (Inr (), w4)
                     | Some t \<Rightarrow>
                         and_then (add_missing n t (heap w4 t) False w4)
                           (\<lambda>template_additions w5.
                              if template_additions then JsonConfig_write n w5
                              else (Inr (), w5))))))))"

definition JsonConfig_create :: "nat \<Rightarrow> world \<Rightarrow> unit result" where
  "JsonConfig_create n w =
     (case template (configs w n) of
        Some t \<Rightarrow> (case alloc (heap w t) w of (a, w1) \<Rightarrow> JsonConfig_write n (set_opts n a w1))
      | None \<Rightarrow> JsonConfig_write n w)"

definition JsonConfig_init :: "nat \<Rightarrow> world \<Rightarrow> unit result" where
  "JsonConfig_init n w =
     (if fs w (path (configs w n)) \<noteq> None then JsonConfig_load n w else JsonConfig_create n w)"

text \<open>The constructor \<open>JsonConfig(path, template, check_date)\<close>.\<close>

definition JsonConfig :: "string \<Rightarrow> addr option \<Rightarrow> bool \<Rightarrow> world \<Rightarrow> cref result" where
  "JsonConfig p t cd w =
     (case alloc [] w of (a, w1) \<Rightarrow>
        (let n = next_config w1;
             w2 = w1\<lparr>configs := (configs w1)(n :=
                        \<lparr>opts = a, path = p, template = t, check_date = cd,
                         last_readwrite_date = None\<rparr>),
                     next_config := Suc n\<rparr>
         in and_then (JsonConfig_init n w2) (\<lambda>_ w3. (Inr (JsonConfigRef n), w3))))"

subsection \<open>ConfigMixin, SubconfigMixin and SubConfig\<close>

text \<open>\<open>self.opts\<close>, for either class.\<close>

fun opts_of :: "world \<Rightarrow> cref \<Rightarrow> addr" where
  "opts_of w (JsonConfigRef n) = opts (configs w n)"
| "opts_of w (SubConfigRef i p k) = views w i"

text \<open>\<open>self.write()\<close>: a SubConfig passes it to its parent.\<close>

fun write_cfg :: "cref \<Rightarrow> world \<Rightarrow> unit result" where
  "write_cfg (JsonConfigRef n) w = JsonConfig_write n w"
| "write_cfg (SubConfigRef i p k) w = write_cfg p w"

text \<open>
  \<open>SubConfig.clear\<close>: a new dictionary is stored in the parent under the name, and
  \<open>opts\<close> is rebound to what the parent now holds there.
\<close>

definition SubConfig_clear :: "nat \<Rightarrow> cref \<Rightarrow> string \<Rightarrow> world \<Rightarrow> unit result" where
  "SubConfig_clear i p k w =
     (case alloc [] w of (a, w1) \<Rightarrow>
        (let w2 = setitem (opts_of w1 p) k (VDict a) w1 in
         case map_of (heap w2 (opts_of w2 p)) k of
           None \<Rightarrow> (Inl (KeyError k), w2)
         | Some (VDict b) \<Rightarrow> (Inr (), w2\<lparr>views := (views w2)(i := b)\<rparr>)
         | Some _ \<Rightarrow> (Inl NotAMapping, w2)))"

fun clear_cfg :: "cref \<Rightarrow> world \<Rightarrow> unit result" where
  "clear_cfg (JsonConfigRef n) w = JsonConfig_clear n w"
| "clear_cfg (SubConfigRef i p k) w = SubConfig_clear i p k w"

definition ConfigMixin_set :: "cref \<Rightarrow> string \<Rightarrow> val \<Rightarrow> world \<Rightarrow> unit result" where
  "ConfigMixin_set r key v w = write_cfg r (setitem (opts_of w r) key v w)"

definition ConfigMixin_get :: "cref \<Rightarrow> string \<Rightarrow> world \<Rightarrow> val result" where
  "ConfigMixin_get r key w =
     (case map_of (heap w (opts_of w r)) key of
        None \<Rightarrow> (Inl (KeyError key), w)
      | Some v \<Rightarrow> (Inr v, w))"

definition ConfigMixin_get_and_set ::
  "cref \<Rightarrow> string \<Rightarrow> (val \<Rightarrow> error + val) \<Rightarrow> world \<Rightarrow> unit result" where
  "ConfigMixin_get_and_set r key f w =
     (case map_of (heap w (opts_of w r)) key of
        None \<Rightarrow> (Inl (KeyError key), w)
      | Some v \<Rightarrow>
          (case f v of
             Inl e \<Rightarrow> (Inl e, w)
           | Inr v' \<Rightarrow> write_cfg r (setitem (opts_of w r) key v' w)))"

definition ConfigMixin_delete :: "cref \<Rightarrow> string \<Rightarrow> bool \<Rightarrow> world \<Rightarrow> unit result" where
  "ConfigMixin_delete r key ignore_keyerror w =
     (if ignore_keyerror \<and> \<not> contains (heap w (opts_of w r)) key then (Inr (), w)
      else if contains (heap w (opts_of w r)) key then write_cfg r (delitem (opts_of w r) key w)
      else (Inl (KeyError key), w))"

text \<open>\<open>get_and_clear\<close> returns the copy it made, a new dictionary.\<close>

definition ConfigMixin_get_and_clear :: "cref \<Rightarrow> world \<Rightarrow> addr result" where
  "ConfigMixin_get_and_clear r w =
     (case alloc (heap w (opts_of w r)) w of (cfg, w1) \<Rightarrow>
        and_then (clear_cfg r w1) (\<lambda>_ w2. and_then (write_cfg r w2) (\<lambda>_ w3. (Inr cfg, w3))))"

definition ConfigMixin_contains :: "cref \<Rightarrow> string \<Rightarrow> world \<Rightarrow> bool" where
  "ConfigMixin_contains r item w = contains (heap w (opts_of w r)) item"

text \<open>
  \<open>SubconfigMixin.sub\<close> constructs a SubConfig over \<open>self.opts[key]\<close>. The source
  constructs it over any value; the specification requires a mapping, and the model
  covers views of mappings only: any other value is reported here as \<open>NotAMapping\<close>.
\<close>

definition SubconfigMixin_sub :: "cref \<Rightarrow> string \<Rightarrow> world \<Rightarrow> cref result" where
  "SubconfigMixin_sub r key w =
     (case map_of (heap w (opts_of w r)) key of
        None \<Rightarrow> (Inl (KeyError key), w)
      | Some (VDict a) \<Rightarrow>
          (Inr (SubConfigRef (next_view w) r key),
           w\<lparr>views := (views w)(next_view w := a), next_view := Suc (next_view w)\<rparr>)
      | Some _ \<Rightarrow> (Inl NotAMapping, w))"

subsection \<open>What happens outside the process\<close>

text \<open>
  Time passes, and somebody else may write a file: the file then has the content and
  the modification time that they gave it.
\<close>

definition tick :: "nat \<Rightarrow> world \<Rightarrow> world" where
  "tick t w = w\<lparr>now := t\<rparr>"

definition external_edit :: "string \<Rightarrow> fcontent \<Rightarrow> nat \<Rightarrow> world \<Rightarrow> world" where
  "external_edit p x m w = w\<lparr>fs := (fs w)(p \<mapsto> \<lparr>content = x, mtime = m\<rparr>)\<rparr>"

subsection \<open>JsonConfigDB\<close>

definition cfg_loc :: "jsonconfigdb \<Rightarrow> string \<Rightarrow> string" where
  "cfg_loc s cid = db_path s @ ''/'' @ cid @ ''.json''"

text \<open>
  \<open>get_template\<close>. With \<open>unique_template\<close> the template of the store maps an id to
  its template, and an id without one gets a new empty dictionary.
\<close>

definition get_template :: "nat \<Rightarrow> string \<Rightarrow> world \<Rightarrow> addr option result" where
  "get_template s cid w =
     (if unique_template (stores w s) then
        (case db_template (stores w s) of
           None \<Rightarrow> (Inl TypeError, w)
         | Some t \<Rightarrow>
             (case map_of (heap w t) cid of
                None \<Rightarrow> (case alloc [] w of (a, w1) \<Rightarrow> (Inr (Some a), w1))
              | Some (VDict a) \<Rightarrow> (Inr (Some a), w)
              | Some _ \<Rightarrow> (Inl NotAMapping, w)))
      else (Inr (db_template (stores w s)), w))"

definition create_config :: "nat \<Rightarrow> string \<Rightarrow> world \<Rightarrow> unit result" where
  "create_config s cid w =
     and_then (get_template s cid w)
       (\<lambda>t w1. and_then (JsonConfig (cfg_loc (stores w1 s) cid) t False w1)
          (\<lambda>c w2. (Inr (),
             w2\<lparr>stores := (stores w2)(s :=
                   (stores w2 s)\<lparr>db := AList.update cid c (db (stores w2 s))\<rparr>)\<rparr>)))"

definition get_config :: "nat \<Rightarrow> string \<Rightarrow> world \<Rightarrow> cref result" where
  "get_config s cid w =
     and_then (if \<not> contains (db (stores w s)) cid then create_config s cid w else (Inr (), w))
       (\<lambda>_ w1. case map_of (db (stores w1 s)) cid of
                  None \<Rightarrow> (Inl (KeyError cid), w1)
                | Some c \<Rightarrow> (Inr c, w1))"

section \<open>The core wrapper\<close>

text \<open>\<open>str(i)\<close> for an integer: its decimal digits, with a sign.\<close>

definition digit :: "nat \<Rightarrow> char" where
  "digit d = ''0123456789'' ! d"

fun str_nat :: "nat \<Rightarrow> string" where
  "str_nat n = (if n < 10 then [digit n] else str_nat (n div 10) @ [digit (n mod 10)])"

declare str_nat.simps [simp del]

definition str :: "int \<Rightarrow> string" where
  "str i = (if i < 0 then CHR ''-'' # str_nat (nat (- i)) else str_nat (nat i))"

text \<open>
  Modelled from the spec: the classes \<open>JobHeader\<close> and \<open>CronHeader\<close> of the module
  \<open>job\<close>, which is not part of the sources. A header is what the wrapper reads of it:
  \<open>header.id\<close>, \<open>header.guild_id\<close> and the record that \<open>header.as_dict()\<close> returns.
\<close>

record header =
  header_id :: int
  guild_id :: int
  as_dict :: "(string \<times> json) list"

text \<open>
  The state of a \<open>CoreWrapper\<close>: the fields \<open>job_db\<close>, \<open>monkycfg\<close> and
  \<open>jobs_resumed\<close>, the state of its collaborators, and the state of the configuration
  objects.
\<close>

text \<open>
  Modelled from the spec: the collaborators. The module \<open>job\<close> (queue, scheduler,
  factories) and the chat library are not part of the sources. Of the chat library the
  model keeps the ids of the guilds that \<open>get_guild\<close> finds. Of the queue and the
  scheduler it keeps the headers submitted and the schedules created, in order; a
  factory is a function from a stored record to a header, which may fail.
\<close>

record corewrapper =
  job_db :: nat
  monkycfg :: cref
  jobs_resumed :: bool
  guilds :: "int list"
  submitted :: "header list"
  scheduled :: "header list"
  jobfactory :: "(addr \<Rightarrow> dict) \<Rightarrow> val \<Rightarrow> header option"
  cronfactory :: "(addr \<Rightarrow> dict) \<Rightarrow> val \<Rightarrow> header option"
  sys :: world

type_synonym 'a outcome = "(error + 'a) \<times> corewrapper"

definition lift :: "(world \<Rightarrow> 'a result) \<Rightarrow> corewrapper \<Rightarrow> 'a outcome" where
  "lift f c = (case f (sys c) of (r, w) \<Rightarrow> (r, c\<lparr>sys := w\<rparr>))"

definition and_next :: "'a outcome \<Rightarrow> ('a \<Rightarrow> corewrapper \<Rightarrow> 'b outcome) \<Rightarrow> 'b outcome" where
  "and_next r f = (case r of (Inl e, c) \<Rightarrow> (Inl e, c) | (Inr x, c) \<Rightarrow> f x c)"

text \<open>
  \<open>get_jobcfg_for_header\<close>: \<open>get_guild\<close> returns \<open>None\<close> for an unknown guild, and
  reading \<open>guild.id\<close> then raises.
\<close>

definition get_jobcfg_for_header :: "header \<Rightarrow> corewrapper \<Rightarrow> cref outcome" where
  "get_jobcfg_for_header h c =
     (if guild_id h \<in> set (guilds c) then lift (get_config (job_db c) (str (guild_id h))) c
      else (Inl AttributeError, c))"

text \<open>\<open>cfg.sub(name).set(str(header.id), header.as_dict())\<close>\<close>

definition sub_set :: "cref \<Rightarrow> string \<Rightarrow> header \<Rightarrow> world \<Rightarrow> unit result" where
  "sub_set cfg name h w =
     and_then (SubconfigMixin_sub cfg name w)
       (\<lambda>s w1. case thaw (JObj (as_dict h)) w1 of
                  (v, w2) \<Rightarrow> ConfigMixin_set s (str (header_id h)) v w2)"

text \<open>\<open>cfg.sub(name).delete(str(header.id), ignore_keyerror)\<close>\<close>

definition sub_delete :: "cref \<Rightarrow> string \<Rightarrow> header \<Rightarrow> bool \<Rightarrow> world \<Rightarrow> unit result" where
  "sub_delete cfg name h ignore_keyerror w =
     and_then (SubconfigMixin_sub cfg name w)
       (\<lambda>s w1. ConfigMixin_delete s (str (header_id h)) ignore_keyerror w1)"

definition cfg_job_create :: "header \<Rightarrow> corewrapper \<Rightarrow> unit outcome" where
  "cfg_job_create h c =
     and_next (get_jobcfg_for_header h c) (\<lambda>cfg c1. lift (sub_set cfg ''jobs'' h) c1)"

definition cfg_job_delete :: "header \<Rightarrow> corewrapper \<Rightarrow> unit outcome" where
  "cfg_job_delete h c =
     and_next (get_jobcfg_for_header h c) (\<lambda>cfg c1. lift (sub_delete cfg ''jobs'' h True) c1)"

text \<open>
  \<open>lambda val: max(val, header.id)\<close>: Python's \<open>max\<close> keeps its first argument
  unless the second is greater; a Boolean compares as 0 or 1, and any other value does
  not compare with an integer.
\<close>

definition max_id :: "int \<Rightarrow> val \<Rightarrow> error + val" where
  "max_id i v =
     (case v of
        VInt x \<Rightarrow> Inr (if i > x then VInt i else VInt x)
      | VBool b \<Rightarrow> Inr (if i > (if b then 1 else 0) then VInt i else VBool b)
      | _ \<Rightarrow> Inl TypeError)"

definition cfg_sched_create :: "header \<Rightarrow> corewrapper \<Rightarrow> unit outcome" where
  "cfg_sched_create h c =
     and_next (get_jobcfg_for_header h c)
       (\<lambda>cfg c1. and_next (lift (sub_set cfg ''cron'' h) c1)
          (\<lambda>_ c2. lift (ConfigMixin_get_and_set (monkycfg c2) ''last_schedule_id''
                          (max_id (header_id h))) c2))"

definition cfg_sched_delete :: "header \<Rightarrow> corewrapper \<Rightarrow> unit outcome" where
  "cfg_sched_delete h c =
     and_next (get_jobcfg_for_header h c) (\<lambda>cfg c1. lift (sub_delete cfg ''cron'' h False) c1)"

text \<open>
  Modelled from the spec: \<open>JobQueue.submit_job\<close> and \<open>JobCron.create_schedule\<close>.
  The queue takes the job and signals job-submitted; the scheduler registers the
  schedule and signals schedule-created. The wrapper has subscribed
  \<open>_cfg_job_create\<close> and \<open>_cfg_sched_create\<close> to these signals.
\<close>

definition submit_job :: "header \<Rightarrow> corewrapper \<Rightarrow> unit outcome" where
  "submit_job h c = cfg_job_create h (c\<lparr>submitted := submitted c @ [h]\<rparr>)"

definition create_schedule :: "header \<Rightarrow> corewrapper \<Rightarrow> unit outcome" where
  "create_schedule h c = cfg_sched_create h (c\<lparr>scheduled := scheduled c @ [h]\<rparr>)"

definition resume_job :: "val \<Rightarrow> corewrapper \<Rightarrow> unit outcome" where
  "resume_job v c =
     (case jobfactory c (heap (sys c)) v of
        None \<Rightarrow> (Inl FactoryError, c)
      | Some h \<Rightarrow> submit_job h c)"

definition reschedule_cron :: "val \<Rightarrow> corewrapper \<Rightarrow> unit outcome" where
  "reschedule_cron v c =
     (case cronfactory c (heap (sys c)) v of
        None \<Rightarrow> (Inl FactoryError, c)
      | Some h \<Rightarrow> create_schedule h c)"

text \<open>The inner loops, over the items of the copy that \<open>get_and_clear\<close> returned.\<close>

fun resume_each :: "(string \<times> val) list \<Rightarrow> corewrapper \<Rightarrow> unit outcome" where
  "resume_each [] c = (Inr (), c)"
| "resume_each (kv # items) c = and_next (resume_job (snd kv) c) (\<lambda>_ c1. resume_each items c1)"

fun reschedule_each :: "(string \<times> val) list \<Rightarrow> corewrapper \<Rightarrow> unit outcome" where
  "reschedule_each [] c = (Inr (), c)"
| "reschedule_each (kv # items) c =
     and_next (reschedule_cron (snd kv) c) (\<lambda>_ c1. reschedule_each items c1)"

text \<open>
  The outer loops run over \<open>self.job_db.db.items()\<close>. The handlers that run inside
  may add a document to that dictionary, and Python refuses to go on iterating a
  dictionary whose size has changed: the first argument is the size at the start.
\<close>

definition get_and_clear_sub :: "cref \<Rightarrow> string \<Rightarrow> world \<Rightarrow> addr result" where
  "get_and_clear_sub cfg name w =
     and_then (SubconfigMixin_sub cfg name w) (\<lambda>s w1. ConfigMixin_get_and_clear s w1)"

fun resume_jobs_loop :: "nat \<Rightarrow> (string \<times> cref) list \<Rightarrow> corewrapper \<Rightarrow> unit outcome" where
  "resume_jobs_loop n [] c =
     (if length (db (stores (sys c) (job_db c))) \<noteq> n then (Inl RuntimeError, c) else (Inr (), c))"
| "resume_jobs_loop n (entry # entries) c =
     (if length (db (stores (sys c) (job_db c))) \<noteq> n then (Inl RuntimeError, c)
      else and_next (lift (get_and_clear_sub (snd entry) ''jobs'') c)
             (\<lambda>jobs c1. and_next (resume_each (heap (sys c1) jobs) c1)
                (\<lambda>_ c2. resume_jobs_loop n entries c2)))"

fun reschedule_loop :: "nat \<Rightarrow> (string \<times> cref) list \<Rightarrow> corewrapper \<Rightarrow> unit outcome" where
  "reschedule_loop n [] c =
     (if length (db (stores (sys c) (job_db c))) \<noteq> n then (Inl RuntimeError, c) else (Inr (), c))"
| "reschedule_loop n (entry # entries) c =
     (if length (db (stores (sys c) (job_db c))) \<noteq> n then (Inl RuntimeError, c)
      else and_next (lift (get_and_clear_sub (snd entry) ''cron'') c)
             (\<lambda>crons c1. and_next (reschedule_each (heap (sys c1) crons) c1)
                (\<lambda>_ c2. reschedule_loop n entries c2)))"

definition resume_jobs :: "corewrapper \<Rightarrow> unit outcome" where
  "resume_jobs c =
     resume_jobs_loop (length (db (stores (sys c) (job_db c)))) (db (stores (sys c) (job_db c))) c"

definition reschedule_all_cron :: "corewrapper \<Rightarrow> unit outcome" where
  "reschedule_all_cron c =
     reschedule_loop (length (db (stores (sys c) (job_db c)))) (db (stores (sys c) (job_db c))) c"

text \<open>\<open>__on_ready\<close>\<close>

definition on_ready :: "corewrapper \<Rightarrow> unit outcome" where
  "on_ready c =
     (if \<not> jobs_resumed c then
        and_next (reschedule_all_cron c)
          (\<lambda>_ c1. and_next (resume_jobs c1) (\<lambda>_ c2. (Inr (), c2\<lparr>jobs_resumed := True\<rparr>)))
      else (Inr (), c))"

section \<open>GuildStateDB\<close>

text \<open>
  A registered class, as far as the registry reads it: its \<open>__qualname__\<close>, and
  whether it is a subclass of \<open>GuildStateBase\<close>. An instance is an object with an
  identity, constructed from the bot and a guild (\<open>None\<close> when the bot does not know the
  guild).
\<close>

record state_type =
  qualname :: string
  is_guild_state :: bool

record state_instance =
  ident :: nat
  made_by :: string
  guild :: "int option"

text \<open>
  What \<open>get\<close> and \<open>delete\<close> accept: \<open>None\<close>, an integer, a guild, an object with an
  attribute \<open>guild\<close> (a guild or \<open>None\<close>), or anything else. A guild is its id.
\<close>

datatype guild_entity = NoEntity | IdEntity int | GuildEntity int | WithGuild "int option"
  | OtherEntity

text \<open>
  The fields \<open>types\<close> and \<open>statedb\<close>; the guilds that the bot's \<open>get_guild\<close> finds;
  and the number of instances constructed so far, which names the next one.
\<close>

record guildstatedb =
  types :: "(string \<times> state_type) list"
  statedb :: "(string \<times> (int \<times> state_instance) list) list"
  bot_guilds :: "int list"
  constructed :: nat

definition typekey :: "state_type \<Rightarrow> string" where
  "typekey t = qualname t"

definition register_cls :: "state_type \<Rightarrow> guildstatedb \<Rightarrow> (error + unit) \<times> guildstatedb" where
  "register_cls t g =
     (if \<not> is_guild_state t then (Inl GuildStateException, g)
      else if contains (types g) (typekey t) then (Inl GuildStateException, g)
      else (Inr (), g\<lparr>types := AList.update (typekey t) t (types g),
                      statedb := AList.update (typekey t) [] (statedb g)\<rparr>))"

definition get_guild_and_id :: "guild_entity \<Rightarrow> guildstatedb \<Rightarrow> error + (int option \<times> int)" where
  "get_guild_and_id e g =
     (case e of
        NoEntity \<Rightarrow> Inl GuildRequiredException
      | IdEntity i \<Rightarrow> Inr (if i \<in> set (bot_guilds g) then Some i else None, i)
      | GuildEntity i \<Rightarrow> Inr (Some i, i)
      | WithGuild None \<Rightarrow> Inl AttributeError
      | WithGuild (Some i) \<Rightarrow> Inr (Some i, i)
      | OtherEntity \<Rightarrow> Inl TypeError)"

text \<open>\<open>__get_of_type\<close>, with the check of \<open>__check_typekey\<close>.\<close>

definition get_of_type ::
  "state_type \<Rightarrow> guildstatedb \<Rightarrow> error + (state_type \<times> (int \<times> state_instance) list)" where
  "get_of_type t g =
     (case map_of (types g) (typekey t) of
        None \<Rightarrow> Inl GuildStateException
      | Some t' \<Rightarrow>
          (case map_of (statedb g) (typekey t) of
             None \<Rightarrow> Inl (KeyError (typekey t))
           | Some states \<Rightarrow> Inr (t', states)))"

definition gs_get ::
  "state_type \<Rightarrow> guild_entity \<Rightarrow> guildstatedb \<Rightarrow> (error + state_instance) \<times> guildstatedb" where
  "gs_get t e g =
     (case get_guild_and_id e g of
        Inl err \<Rightarrow> (Inl err, g)
      | Inr (gld, gid) \<Rightarrow>
          (case get_of_type t g of
             Inl err \<Rightarrow> (Inl err, g)
           | Inr (t', guild_states) \<Rightarrow>
               (case map_of guild_states gid of
                  Some gs \<Rightarrow> (Inr gs, g)
                | None \<Rightarrow>
                    (let gs = \<lparr>ident = constructed g, made_by = qualname t', guild = gld\<rparr>
                     in (Inr gs,
                         g\<lparr>statedb := AList.update (typekey t)
                                         (AList.update gid gs guild_states) (statedb g),
                           constructed := Suc (constructed g)\<rparr>)))))"

text \<open>
  The loop of \<open>delete\<close> over \<open>self.statedb.values()\<close>. For a dictionary that holds
  the guild, the statement is \<open>del guild_id[states]\<close>: item deletion on an integer,
  which raises TypeError and deletes nothing.
\<close>

fun delete_loop :: "(int \<times> state_instance) list list \<Rightarrow> int \<Rightarrow> error + unit" where
  "delete_loop [] gid = Inr ()"
| "delete_loop (states # rest) gid =
     (if contains states gid then Inl TypeError else delete_loop rest gid)"

definition gs_delete :: "guild_entity \<Rightarrow> guildstatedb \<Rightarrow> (error + unit) \<times> guildstatedb" where
  "gs_delete e g =
     (case get_guild_and_id e g of
        Inl err \<Rightarrow> (Inl err, g)
      | Inr (gld, gid) \<Rightarrow> (delete_loop (map snd (statedb g)) gid, g))"

section \<open>Sequences of calls\<close>

text \<open>
  \<open>sub = doc.sub("jobs"); sub.set("1", "x"); sub.clear(); sub.set("2", "y")\<close>
\<close>

definition jobs_sequence :: "cref \<Rightarrow> world \<Rightarrow> unit result" where
  "jobs_sequence doc w =
     and_then (SubconfigMixin_sub doc ''jobs'' w)
       (\<lambda>sub w1. and_then (ConfigMixin_set sub ''1'' (VStr ''x'') w1)
          (\<lambda>_ w2. and_then (clear_cfg sub w2)
             (\<lambda>_ w3. ConfigMixin_set sub ''2'' (VStr ''y'') w3)))"

text \<open>
  \<open>s1 = doc.sub(k); s2 = doc.sub(k); s1.clear(); s2.set(a, v)\<close>
\<close>

definition sibling_sequence :: "cref \<Rightarrow> string \<Rightarrow> string \<Rightarrow> val \<Rightarrow> world \<Rightarrow> unit result" where
  "sibling_sequence doc k a v w =
     and_then (SubconfigMixin_sub doc k w)
       (\<lambda>s1 w1. and_then (SubconfigMixin_sub doc k w1)
          (\<lambda>s2 w2. and_then (clear_cfg s1 w2)
             (\<lambda>_ w3. ConfigMixin_set s2 a v w3)))"

text \<open>
  Schedule-created is delivered for each header of a list, in order. The handler is a
  callback: when it raises, the state it leaves is the state in which the next event is
  delivered. \<open>all_complete\<close> says that no delivery raised.
\<close>

fun deliver :: "header list \<Rightarrow> corewrapper \<Rightarrow> corewrapper" where
  "deliver [] c = c"
| "deliver (h # hs) c = deliver hs (snd (cfg_sched_create h c))"

fun all_complete :: "header list \<Rightarrow> corewrapper \<Rightarrow> bool" where
  "all_complete [] c = True"
| "all_complete (h # hs) c =
     (fst (cfg_sched_create h c) = Inr () \<and> all_complete hs (snd (cfg_sched_create h c)))"

text \<open>The last delivery of a sequence of deliveries did not raise.\<close>

definition last_completes :: "header list \<Rightarrow> corewrapper \<Rightarrow> bool" where
  "last_completes hs c \<longleftrightarrow>
     hs \<noteq> [] \<and> fst (cfg_sched_create (last hs) (deliver (butlast hs) c)) = Inr ()"

section \<open>Auxiliary notions\<close>

text \<open>
  The second state comes from the first by allocating dictionaries: the dictionaries
  that existed are unchanged, and so is everything that is not a dictionary.
\<close>

definition grows :: "world \<Rightarrow> world \<Rightarrow> bool" where
  "grows w w' \<longleftrightarrow>
     next_addr w \<le> next_addr w' \<and> (\<forall>a < next_addr w. heap w' a = heap w a) \<and>
     configs w' = configs w \<and> next_config w' = next_config w \<and> views w' = views w \<and>
     next_view w' = next_view w \<and> stores w' = stores w \<and> next_store w' = next_store w \<and>
     fs w' = fs w \<and> now w' = now w \<and> depth_limit w' = depth_limit w"

text \<open>The document at the root of a chain of views: the one that \<open>write\<close> reaches.\<close>

fun root_of :: "cref \<Rightarrow> nat" where
  "root_of (JsonConfigRef n) = n"
| "root_of (SubConfigRef i p k) = root_of p"

text \<open>
  The second state differs from the first at most in files and in dates of last read or
  write: what a \<open>write\<close> can change.
\<close>

definition persists :: "world \<Rightarrow> world \<Rightarrow> bool" where
  "persists w w' \<longleftrightarrow>
     heap w' = heap w \<and> next_addr w' = next_addr w \<and> views w' = views w \<and>
     next_view w' = next_view w \<and> stores w' = stores w \<and> next_store w' = next_store w \<and>
     next_config w' = next_config w \<and> now w' = now w \<and> depth_limit w' = depth_limit w \<and>
     (\<forall>m. opts (configs w' m) = opts (configs w m) \<and> path (configs w' m) = path (configs w m) \<and>
          template (configs w' m) = template (configs w m) \<and>
          check_date (configs w' m) = check_date (configs w m))"

text \<open>
  The data of a document as \<open>json.dump\<close> would write it now: its dictionary with
  every nested mapping followed.
\<close>

definition data_of :: "world \<Rightarrow> nat \<Rightarrow> (string \<times> json) list option" where
  "data_of w n = freeze_items (depth_limit w) (heap w) (heap w (opts (configs w n)))"

text \<open>A reference to a document, not to a view.\<close>

fun is_document :: "cref \<Rightarrow> bool" where
  "is_document (JsonConfigRef n) = True"
| "is_document (SubConfigRef i p k) = False"

text \<open>
  The counter of schedule ids in memory: what the document of the process-wide metadata
  holds as \<open>last_schedule_id\<close>.
\<close>

definition last_schedule_id :: "corewrapper \<Rightarrow> val option" where
  "last_schedule_id c =
     map_of (heap (sys c) (opts_of (sys c) (monkycfg c))) ''last_schedule_id''"

text \<open>
  The document \<open>mi\<close> exists, its dictionary \<open>m\<close> exists, and no dictionary holds \<open>m\<close>
  itself as its \<open>"cron"\<close> mapping.
\<close>

definition guards :: "nat \<Rightarrow> addr \<Rightarrow> world \<Rightarrow> bool" where
  "guards mi m w \<longleftrightarrow>
     mi < next_config w \<and> opts (configs w mi) = m \<and> m < next_addr w \<and>
     (\<forall>b. map_of (heap w b) ''cron'' \<noteq> Some (VDict m))"

text \<open>
  The same for the wrapper: its metadata document is a document that exists, with a
  dictionary of its own which is not the \<open>"cron"\<close> mapping of any dictionary.
\<close>

definition counter_safe :: "corewrapper \<Rightarrow> bool" where
  "counter_safe c =
     (case monkycfg c of
        JsonConfigRef mi \<Rightarrow> guards mi (opts (configs (sys c) mi)) (sys c)
      | SubConfigRef i p k \<Rightarrow> False)"

text \<open>
  The counter as a file holds it: the member \<open>last_schedule_id\<close> of the JSON object
  in the file \<open>p\<close>, when there is such a file and it can be parsed.
\<close>

definition file_counter :: "string \<Rightarrow> world \<Rightarrow> json option" where
  "file_counter p w =
     (case fs w p of
        None \<Rightarrow> None
      | Some f \<Rightarrow> (case content f of Corrupt \<Rightarrow> None | Doc ms \<Rightarrow> map_of ms ''last_schedule_id''))"

text \<open>
  The counter on disk: what the file of the wrapper's metadata document holds, and
  what a restart would load.
\<close>

definition durable_last_schedule_id :: "corewrapper \<Rightarrow> json option" where
  "durable_last_schedule_id c =
     file_counter (path (configs (sys c) (root_of (monkycfg c)))) (sys c)"

text \<open>The file \<open>p\<close> is in the directory \<open>dir\<close>.\<close>

definition inside :: "string \<Rightarrow> string \<Rightarrow> bool" where
  "inside dir p \<longleftrightarrow> take (Suc (length dir)) p = dir @ ''/''"

text \<open>
  The document \<open>mi\<close> exists and is the only document of the file \<open>pm\<close>; \<open>pm\<close> is not
  in the directory of the store \<open>s\<close>; every entry of \<open>s\<close> is a document that exists, or
  a view of one, and is not \<open>mi\<close>.
\<close>

definition apart :: "nat \<Rightarrow> string \<Rightarrow> nat \<Rightarrow> world \<Rightarrow> bool" where
  "apart mi pm s w \<longleftrightarrow>
     mi < next_config w \<and> path (configs w mi) = pm \<and>
     (\<forall>n < next_config w. n \<noteq> mi \<longrightarrow> path (configs w n) \<noteq> pm) \<and>
     \<not> inside (db_path (stores w s)) pm \<and>
     list_all (\<lambda>r. root_of r < next_config w \<and> root_of r \<noteq> mi) (map snd (db (stores w s)))"

text \<open>
  The same for the wrapper: no other document is written to the file of the metadata
  document, which is not in the directory of the job documents, and the metadata
  document is not itself a job document.
\<close>

definition files_apart :: "corewrapper \<Rightarrow> bool" where
  "files_apart c =
     apart (root_of (monkycfg c)) (path (configs (sys c) (root_of (monkycfg c)))) (job_db c)
       (sys c)"

section \<open>Example states\<close>

text \<open>A state with no objects and no files, at time 0.\<close>

definition empty_world :: world where
  "empty_world =
     \<lparr>heap = (\<lambda>_. []), next_addr = 0,
      configs = (\<lambda>_. \<lparr>opts = 0, path = [], template = None, check_date = False,
                       last_readwrite_date = None\<rparr>),
      next_config = 0, views = (\<lambda>_. 0), next_view = 0,
      stores = (\<lambda>_. \<lparr>db_path = [], db = [], db_template = None, unique_template = False\<rparr>),
      next_store = 0, fs = (\<lambda>_. None), now = 0, depth_limit = 1000\<rparr>"

text \<open>
  A document without template and with the date check, constructed at time 0 over a
  path that has no file; the time is now 3.
\<close>

definition checked_world :: world where
  "checked_world = tick 3 (snd (JsonConfig ''a.json'' None True empty_world))"

text \<open>
  A template \<open>{"x": 5, "y": {}}\<close> at address 0, a file \<open>{"x": 1}\<close>, and a document
  over that file and template that has not been loaded yet.
\<close>

definition template_world :: world where
  "template_world =
     empty_world
       \<lparr>heap := (\<lambda>_. [])(0 := [(''x'', VInt 5), (''y'', VDict 1)]),
        next_addr := 3,
        configs := (configs empty_world)(0 :=
          \<lparr>opts = 2, path = ''a.json'', template = Some 0, check_date = False,
           last_readwrite_date = None\<rparr>),
        next_config := 1,
        fs := (\<lambda>_. None)(''a.json'' \<mapsto> \<lparr>content = Doc [(''x'', JInt 1)], mtime = 0\<rparr>),
        now := 2\<rparr>"


text \<open>A job document \<open>{"jobs": {}, "cron": {}}\<close>, without the date check.\<close>

definition jobs_world :: world where
  "jobs_world =
     empty_world
       \<lparr>heap := (\<lambda>_. [])(0 := [(''jobs'', VDict 1), (''cron'', VDict 2)]),
        next_addr := 3,
        configs := (configs empty_world)(0 :=
          \<lparr>opts = 0, path = ''jobdb/1.json'', template = None, check_date = False,
           last_readwrite_date = Some 0\<rparr>),
        next_config := 1,
        fs := (\<lambda>_. None)(''jobdb/1.json'' \<mapsto>
                \<lparr>content = Doc [(''jobs'', JObj []), (''cron'', JObj [])], mtime = 0\<rparr>),
        now := 1\<rparr>"

text \<open>
  The store of job documents as the wrapper constructs it, over an empty directory:
  one template \<open>{"jobs": {}, "cron": {}}\<close> for every id.
\<close>

definition store_world :: world where
  "store_world =
     empty_world
       \<lparr>heap := (\<lambda>_. [])(0 := [(''jobs'', VDict 1), (''cron'', VDict 2)]),
        next_addr := 3,
        stores := (stores empty_world)(0 :=
          \<lparr>db_path = ''jobdb'', db = [], db_template = Some 0, unique_template = False\<rparr>),
        next_store := 1\<rparr>"

text \<open>The documents of the ids 1 and 2 are created, in this order.\<close>

definition two_docs_world :: world where
  "two_docs_world = snd (get_config 0 ''2'' (snd (get_config 0 ''1'' store_world)))"

text \<open>Then \<open>"5"\<close> is set in the jobs of the document of id 1.\<close>

definition after_set_world :: world where
  "after_set_world =
     snd (and_then (SubconfigMixin_sub (JsonConfigRef 0) ''jobs'' two_docs_world)
            (\<lambda>s w. ConfigMixin_set s ''5'' (VStr ''x'') w))"

text \<open>
  A factory that reads \<open>id\<close> and \<open>guild_id\<close> from a stored record, and headers whose
  records have these two members.
\<close>

definition example_factory :: "(addr \<Rightarrow> dict) \<Rightarrow> val \<Rightarrow> header option" where
  "example_factory h v =
     (case v of
        VDict a \<Rightarrow>
          (case (map_of (h a) ''id'', map_of (h a) ''guild_id'') of
             (Some (VInt i), Some (VInt g)) \<Rightarrow>
               Some \<lparr>header_id = i, guild_id = g,
                     as_dict = [(''id'', JInt i), (''guild_id'', JInt g)]\<rparr>
           | _ \<Rightarrow> None)
      | _ \<Rightarrow> None)"

definition example_header :: "int \<Rightarrow> int \<Rightarrow> header" where
  "example_header i g =
     \<lparr>header_id = i, guild_id = g, as_dict = [(''id'', JInt i), (''guild_id'', JInt g)]\<rparr>"

text \<open>
  A wrapper after a restart. The store of job documents holds the document of guild 7,
  with the job 2 and the schedule 1 of the last run; the document of the process-wide
  metadata holds the counter, at 1.
\<close>

definition restart_world :: world where
  "restart_world =
     empty_world
       \<lparr>heap := (\<lambda>_. [])
          (0 := [(''jobs'', VDict 1), (''cron'', VDict 2)],
           3 := [(''jobs'', VDict 4), (''cron'', VDict 5)],
           4 := [(''2'', VDict 6)],
           5 := [(''1'', VDict 7)],
           6 := [(''id'', VInt 2), (''guild_id'', VInt 7)],
           7 := [(''id'', VInt 1), (''guild_id'', VInt 7)],
           8 := [(''last_schedule_id'', VInt 1)]),
        next_addr := 9,
        configs := (configs empty_world)
          (0 := \<lparr>opts = 3, path = ''jobdb/7.json'', template = Some 0, check_date = False,
                 last_readwrite_date = Some 0\<rparr>,
           1 := \<lparr>opts = 8, path = ''commoncfg/_monky.json'', template = None,
                 check_date = False, last_readwrite_date = Some 0\<rparr>),
        next_config := 2,
        stores := (stores empty_world)(0 :=
          \<lparr>db_path = ''jobdb'', db = [(''7'', JsonConfigRef 0)], db_template = Some 0,
           unique_template = False\<rparr>),
        next_store := 1,
        now := 1\<rparr>"

definition restart_core :: corewrapper where
  "restart_core =
     \<lparr>job_db = 0, monkycfg = JsonConfigRef 1, jobs_resumed = False, guilds = [7],
      submitted = [], scheduled = [], jobfactory = example_factory,
      cronfactory = example_factory, sys = restart_world\<rparr>"

text \<open>
  The same wrapper, with the counter at 0, in the metadata document and in its file.
\<close>

definition zero_core :: corewrapper where
  "zero_core =
     restart_core\<lparr>sys :=
       external_edit ''commoncfg/_monky.json'' (Doc [(''last_schedule_id'', JInt 0)]) 0
         (setitem 8 ''last_schedule_id'' (VInt 0) restart_world)\<rparr>"

text \<open>A registry with one registered class, and a bot that knows guild 7.\<close>

definition counter_type :: state_type where
  "counter_type = \<lparr>qualname = ''Counter'', is_guild_state = True\<rparr>"

definition registry0 :: guildstatedb where
  "registry0 =
     \<lparr>types = [(''Counter'', counter_type)], statedb = [(''Counter'', [])],
      bot_guilds = [7], constructed = 0\<rparr>"

text \<open>The instance that the first \<open>get\<close> constructs, and the registry that holds it.\<close>

definition counter7 :: state_instance where
  "counter7 = \<lparr>ident = 0, made_by = ''Counter'', guild = Some 7\<rparr>"

definition registry1 :: guildstatedb where
  "registry1 =
     \<lparr>types = [(''Counter'', counter_type)], statedb = [(''Counter'', [(7, counter7)])],
      bot_guilds = [7], constructed = 1\<rparr>"

section \<open>Evaluation and basic facts\<close>

lemmas cfg_defs = JsonConfig_def JsonConfig_init_def JsonConfig_create_def JsonConfig_load_def
  JsonConfig_write_def dump_opts_def update_last_date_def set_opts_def alloc_def and_then_def
  setitem_def delitem_def contains_def Let_def tick_def external_edit_def

lemma dump_opts_ok:
  assumes "freeze_items (depth_limit w) (heap w) (heap w (opts (configs w n))) = Some ms"
  shows "dump_opts n w = (Inr (), update_last_date n
             (w\<lparr>fs := (fs w)(path (configs w n) \<mapsto> \<lparr>content = Doc ms, mtime = now w\<rparr>)\<rparr>))"
  using assms by (simp add: dump_opts_def Let_def)

lemma grows_refl [simp]: "grows w w"
  unfolding grows_def by simp

lemma grows_trans: "grows w w1 \<Longrightarrow> grows w1 w2 \<Longrightarrow> grows w w2"
  unfolding grows_def by auto

lemma grows_alloc: "alloc d w = (a, w') \<Longrightarrow> grows w w'"
  unfolding grows_def alloc_def by auto

lemma thaw_grows:
  "thaw j w = (v, w') \<Longrightarrow> grows w w'"
  "thaw_list js w = (vs, w') \<Longrightarrow> grows w w'"
  "thaw_items acc ms w = (d, w') \<Longrightarrow> grows w w'"
proof (induction j w and js w and acc ms w arbitrary: v w' and vs w' and d w'
    rule: thaw_thaw_list_thaw_items.induct)
  case (6 ms w)
  then show ?case
    by (auto split: prod.splits dest!: grows_alloc intro: grows_trans)
next
  case (8 j js w)
  then show ?case
    by (auto split: prod.splits intro: grows_trans)
next
  case (10 acc m ms w)
  then show ?case
    by (auto split: prod.splits intro: grows_trans)
qed (auto split: prod.splits)

lemma thaw_items_keys:
  "thaw_items acc ms w = (d, w') \<Longrightarrow> fst ` set d = fst ` set acc \<union> fst ` set ms"
proof (induction ms arbitrary: acc w)
  case Nil
  then show ?case by simp
next
  case (Cons m ms)
  then show ?case
    by (auto split: prod.splits simp: dom_update)
qed

lemma freeze_numeral [simp]:
  "freeze (numeral k) h (VDict a) = map_option JObj (freeze_items (pred_numeral k) h (h a))"
  by (simp add: numeral_eq_Suc)

lemma write_cfg_root: "write_cfg r w = JsonConfig_write (root_of r) w"
  by (induction r) simp_all

lemma JsonConfig_write_cases:
  assumes "JsonConfig_write n w = (res, w')"
  shows "(res = Inr () \<and> (\<exists>ms. freeze_items (depth_limit w) (heap w) (heap w (opts (configs w n))) = Some ms \<and>
            w' = update_last_date n (w\<lparr>fs := (fs w)(path (configs w n) \<mapsto> \<lparr>content = Doc ms, mtime = now w\<rparr>)\<rparr>))) \<or>
         (res = Inl EncodeError \<and> w' = w\<lparr>fs := (fs w)(path (configs w n) \<mapsto> \<lparr>content = Corrupt, mtime = now w\<rparr>)\<rparr>) \<or>
         ((res = Inl TypeError \<or> res = Inl ConfigException) \<and> w' = w)"
  using assms
  by (auto simp: JsonConfig_write_def dump_opts_def Let_def split: option.splits if_splits)

lemma persists_refl [simp]: "persists w w"
  by (simp add: persists_def)

lemma persists_trans: "persists w w1 \<Longrightarrow> persists w1 w2 \<Longrightarrow> persists w w2"
  by (simp add: persists_def)

lemma JsonConfig_write_persists: "JsonConfig_write n w = (res, w') \<Longrightarrow> persists w w'"
  by (drule JsonConfig_write_cases) (auto simp: persists_def update_last_date_def split: if_splits)

lemma write_cfg_persists: "write_cfg r w = (res, w') \<Longrightarrow> persists w w'"
  by (simp add: write_cfg_root JsonConfig_write_persists)

lemma persists_opts_of: "persists w w' \<Longrightarrow> opts_of w' r = opts_of w r"
  by (cases r) (simp_all add: persists_def)


lemma freeze_items_lookup:
  "freeze_items n h d = Some ms \<Longrightarrow> map_of d k = Some v \<Longrightarrow>
   \<exists>j. freeze n h v = Some j \<and> map_of ms k = Some j"
proof (induction d arbitrary: ms)
  case Nil
  then show ?case by simp
next
  case (Cons m d)
  then show ?case
    by (cases m) (auto split: option.splits if_splits)
qed

lemma freeze_empty_dict:
  "h a = [] \<Longrightarrow> freeze n h (VDict a) = Some j \<Longrightarrow> j = JObj []"
  by (cases n) auto

lemma opts_of_heap_update [simp]: "opts_of (w\<lparr>heap := h\<rparr>) p = opts_of w p"
  by (cases p) simp_all

lemma opts_of_next_addr_update [simp]: "opts_of (w\<lparr>next_addr := a\<rparr>) p = opts_of w p"
  by (cases p) simp_all

lemma opts_of_fs_update [simp]: "opts_of (w\<lparr>fs := f\<rparr>) p = opts_of w p"
  by (cases p) simp_all

lemma opts_of_now_update [simp]: "opts_of (w\<lparr>now := t\<rparr>) p = opts_of w p"
  by (cases p) simp_all

lemma sub_result:
  assumes "map_of (heap w (opts_of w r)) key = Some (VDict a)"
  shows "SubconfigMixin_sub r key w =
           (Inr (SubConfigRef (next_view w) r key),
            w\<lparr>views := (views w)(next_view w := a), next_view := Suc (next_view w)\<rparr>)"
  using assms by (simp add: SubconfigMixin_sub_def)

text \<open>The state after \<open>SubConfig.clear\<close>, field by field.\<close>

lemma SubConfig_clear_result:
  "\<exists>w'. SubConfig_clear i p k w = (Inr (), w') \<and>
     heap w' = (heap w)(next_addr w := [],
                 opts_of w p := AList.update k (VDict (next_addr w))
                                  (((heap w)(next_addr w := [])) (opts_of w p))) \<and>
     next_addr w' = Suc (next_addr w) \<and> views w' = (views w)(i := next_addr w) \<and>
     configs w' = configs w \<and> fs w' = fs w \<and> next_view w' = next_view w \<and>
     now w' = now w \<and> depth_limit w' = depth_limit w \<and> stores w' = stores w \<and>
     next_config w' = next_config w \<and> next_store w' = next_store w"
proof -
  let ?w1 = "snd (alloc [] w)"
  let ?w2 = "setitem (opts_of w p) k (VDict (next_addr w)) ?w1"
  have o: "opts_of ?w1 p = opts_of w p" "opts_of ?w2 p = opts_of w p"
    by (simp_all add: alloc_def setitem_def)
  have e: "fst (alloc [] w) = next_addr w" by (simp add: alloc_def)
  have lk: "map_of (heap ?w2 (opts_of w p)) k = Some (VDict (next_addr w))"
    by (simp add: setitem_def update_conv')
  have "SubConfig_clear i p k w = (Inr (), ?w2\<lparr>views := (views ?w2)(i := next_addr w)\<rparr>)"
    unfolding SubConfig_clear_def case_prod_unfold e Let_def o lk by simp
  then show ?thesis
    by (simp add: alloc_def setitem_def)
qed

lemma freeze_singleton:
  assumes "h a = [(k, VStr s)]" "freeze n h (VDict a) = Some j"
  shows "j = JObj [(k, JStr s)]"
  using assms by (cases n) auto

lemmas db_defs = get_config_def create_config_def get_template_def cfg_loc_def

lemmas core_defs = on_ready_def reschedule_all_cron_def resume_jobs_def get_and_clear_sub_def
  reschedule_cron_def resume_job_def create_schedule_def submit_job_def cfg_sched_create_def
  cfg_sched_delete_def cfg_job_create_def cfg_job_delete_def sub_set_def sub_delete_def
  get_jobcfg_for_header_def lift_def and_next_def max_id_def str_def str_nat.simps digit_def

lemmas mixin_defs = jobs_sequence_def sibling_sequence_def SubconfigMixin_sub_def
  ConfigMixin_set_def ConfigMixin_get_def ConfigMixin_get_and_set_def ConfigMixin_delete_def
  ConfigMixin_get_and_clear_def SubConfig_clear_def JsonConfig_clear_def

lemma str_nat_last: "str_nat n \<noteq> [] \<and> last (str_nat n) = digit (n mod 10)"
  by (subst (1 2) str_nat.simps) simp

lemma digit_not_letter: "d < 10 \<Longrightarrow> digit d \<in> set ''0123456789''"
  unfolding digit_def by (rule nth_mem) simp

lemma str_last_digit: "last (str i) \<in> set ''0123456789''"
proof -
  have "last (str i) = digit (nat \<bar>i\<bar> mod 10)"
    using str_nat_last[of "nat (- i)"] str_nat_last[of "nat i"]
    by (auto simp: str_def)
  then show ?thesis using digit_not_letter[of "nat \<bar>i\<bar> mod 10"] by simp
qed

lemma str_not_name: "last name \<notin> set ''0123456789'' \<Longrightarrow> str i \<noteq> name"
  using str_last_digit[of i] by auto

lemma get_config_existing:
  "map_of (db (stores w s)) cid = Some r \<Longrightarrow> get_config s cid w = (Inr r, w)"
  by (simp add: get_config_def contains_def and_then_def)

lemma JsonConfig_ref: "JsonConfig p t cd w = (Inr r, w1) \<Longrightarrow> is_document r"
  by (auto simp: JsonConfig_def and_then_def Let_def split: prod.splits sum.splits)

lemma create_config_stored:
  "create_config s cid w = (Inr (), w1) \<Longrightarrow>
   \<exists>r. map_of (db (stores w1 s)) cid = Some r \<and> is_document r"
  by (auto simp: create_config_def and_then_def update_conv' split: prod.splits sum.splits
      dest: JsonConfig_ref)

lemma get_config_stored:
  assumes "get_config s cid w = (Inr r, w1)"
    and "list_all is_document (map snd (db (stores w s)))"
  shows "map_of (db (stores w1 s)) cid = Some r \<and> is_document r"
proof (cases "contains (db (stores w s)) cid")
  case True
  then obtain r' where r': "map_of (db (stores w s)) cid = Some r'"
    by (auto simp: contains_def)
  from get_config_existing[OF r'] assms(1) have "r = r'" "w1 = w" by simp_all
  moreover have "is_document r'"
    using r' assms(2) by (auto simp: list_all_iff dest!: map_of_SomeD)
  ultimately show ?thesis using r' by simp
next
  case False
  with assms(1) obtain w2 where c: "create_config s cid w = (Inr (), w2)"
    and l: "(case map_of (db (stores w2 s)) cid of None \<Rightarrow> (Inl (KeyError cid), w2)
            | Some c \<Rightarrow> (Inr c, w2)) = (Inr r, w1)"
    by (auto simp: get_config_def and_then_def split: prod.splits sum.splits)
  from create_config_stored[OF c] l show ?thesis by auto
qed

lemma delete_absent:
  "\<not> contains (heap w (opts_of w r)) k \<Longrightarrow>
   ConfigMixin_delete r k False w = (Inl (KeyError k), w) \<and>
   ConfigMixin_delete r k True w = (Inr (), w)"
  by (simp add: ConfigMixin_delete_def)

section \<open>JsonConfig.write and the date check\<close>

text \<open>
  C3. With the date check enabled, take a document whose file is absent or not newer
  than the last read or write, and whose data \<open>json.dump\<close> can write. Then
  \<open>write()\<close> succeeds, leaving the file with the dumped data and the time of the write;
  a second \<open>write()\<close>, at any later time \<open>t\<close> and with no modification from outside,
  succeeds as well. If instead the file is modified from outside between the two, with a
  modification time \<open>m\<close> strictly past the date of the first write, the second
  \<open>write()\<close> raises ConfigException and changes nothing: the state after it, the file
  included, is the state before it.
\<close>

theorem write_check_date:
  assumes cd: "check_date (configs w n)"
    and fresh: "case fs w (path (configs w n)) of None \<Rightarrow> True
                | Some f \<Rightarrow> (case last_readwrite_date (configs w n) of
                               None \<Rightarrow> False | Some d \<Rightarrow> mtime f \<le> d)"
    and ser: "freeze_items (depth_limit w) (heap w) (heap w (opts (configs w n))) = Some ms"
    and w1: "w1 = tick t (snd (JsonConfig_write n w))"
  shows "fst (JsonConfig_write n w) = Inr () \<and>
         fs w1 (path (configs w n)) = Some \<lparr>content = Doc ms, mtime = now w\<rparr> \<and>
         last_readwrite_date (configs w1 n) = Some (now w) \<and>
         fst (JsonConfig_write n w1) = Inr () \<and>
         (now w < m \<longrightarrow>
            JsonConfig_write n (external_edit (path (configs w n)) x m w1) =
              (Inl ConfigException, external_edit (path (configs w n)) x m w1))"
proof -
  let ?p = "path (configs w n)"
  let ?wd = "update_last_date n
               (w\<lparr>fs := (fs w)(?p \<mapsto> \<lparr>content = Doc ms, mtime = now w\<rparr>)\<rparr>)"
  have first: "JsonConfig_write n w = (Inr (), ?wd)"
    using cd fresh dump_opts_ok[OF ser]
    by (auto simp: JsonConfig_write_def Let_def split: option.splits)
  have w1': "w1 = tick t ?wd"
    using w1 first by simp
  have ser1: "freeze_items (depth_limit w1) (heap w1) (heap w1 (opts (configs w1 n))) = Some ms"
    using ser by (simp add: w1' tick_def update_last_date_def)
  have second: "fst (JsonConfig_write n w1) = Inr ()"
    using cd dump_opts_ok[OF ser1]
    by (simp add: JsonConfig_write_def Let_def w1' tick_def update_last_date_def)
  have third: "now w < m \<Longrightarrow>
            JsonConfig_write n (external_edit ?p x m w1) =
              (Inl ConfigException, external_edit ?p x m w1)"
    using cd
    by (simp add: JsonConfig_write_def Let_def w1' tick_def update_last_date_def
        external_edit_def)
  show ?thesis
    using first second third by (simp add: w1' tick_def update_last_date_def)
qed

theorem write_check_date_witness:
  "check_date (configs checked_world 0) \<and>
   fs checked_world ''a.json'' = Some \<lparr>content = Doc [], mtime = 0\<rparr> \<and>
   last_readwrite_date (configs checked_world 0) = Some 0 \<and>
   fst (JsonConfig_write 0 checked_world) = Inr () \<and>
   fst (JsonConfig_write 0 (tick 5 (snd (JsonConfig_write 0 checked_world)))) = Inr () \<and>
   JsonConfig_write 0
     (external_edit ''a.json'' (Doc [(''k'', JInt 1)]) 4
        (tick 5 (snd (JsonConfig_write 0 checked_world)))) =
     (Inl ConfigException,
      external_edit ''a.json'' (Doc [(''k'', JInt 1)]) 4
        (tick 5 (snd (JsonConfig_write 0 checked_world))))"
proof -
  have a: "check_date (configs checked_world 0)"
    and p: "path (configs checked_world 0) = ''a.json''"
    and n: "now checked_world = 3"
    and f: "fs checked_world ''a.json'' = Some \<lparr>content = Doc [], mtime = 0\<rparr>"
    and l: "last_readwrite_date (configs checked_world 0) = Some 0"
    and s: "freeze_items (depth_limit checked_world) (heap checked_world)
          (heap checked_world (opts (configs checked_world 0))) = Some []"
    by (simp_all add: checked_world_def empty_world_def cfg_defs)
  have b: "case fs checked_world (path (configs checked_world 0)) of None \<Rightarrow> True
                | Some f \<Rightarrow> (case last_readwrite_date (configs checked_world 0) of
                               None \<Rightarrow> False | Some d \<Rightarrow> mtime f \<le> d)"
    by (simp add: p f l)
  show ?thesis
    using write_check_date[OF a b s refl, of 5 4 "Doc [(''k'', JInt 1)]"] a f l
    by (simp add: p n)
qed

section \<open>JsonConfig.load and the template\<close>

lemma add_missing_result:
  assumes "opts (configs w n) = a" "a \<noteq> t" "fst ` set items \<subseteq> fst ` set (heap w t)"
  shows "\<exists>b' d'. add_missing n t items b w = (Inr b', w\<lparr>heap := (heap w)(a := d')\<rparr>) \<and>
           (\<forall>k. contains (heap w a) k \<longrightarrow> map_of d' k = map_of (heap w a) k) \<and>
           (\<forall>k \<in> fst ` set items. contains d' k)"
  using assms
proof (induction items arbitrary: w b)
  case Nil
  show ?case
    by (intro exI[of _ b] exI[of _ "heap w a"]) simp
next
  case (Cons kv items)
  show ?case
  proof (cases "contains (heap w a) (fst kv)")
    case True
    have sub: "fst ` set items \<subseteq> fst ` set (heap w t)"
      using Cons.prems(3) by auto
    from Cons.IH[OF Cons.prems(1,2) sub, of b] obtain b' d' where
      r: "add_missing n t items b w = (Inr b', w\<lparr>heap := (heap w)(a := d')\<rparr>)"
      and k: "\<forall>k. contains (heap w a) k \<longrightarrow> map_of d' k = map_of (heap w a) k"
      and c: "\<forall>k \<in> fst ` set items. contains d' k"
      by blast
    have ck: "contains d' (fst kv)"
      using True k by (simp add: contains_def)
    have step: "add_missing n t (kv # items) b w = add_missing n t items b w"
      using True Cons.prems(1) by simp
    have c': "\<forall>k \<in> fst ` set (kv # items). contains d' k"
      using c ck by simp
    have A: "add_missing n t (kv # items) b w = (Inr b', w\<lparr>heap := (heap w)(a := d')\<rparr>)"
      using step r by (rule trans)
    from A k c' show ?thesis
      by (intro exI[of _ b'] exI[of _ d'] conjI)
  next
    case False
    from Cons.prems(3) obtain x where x: "map_of (heap w t) (fst kv) = Some x"
      by (metis (no_types, lifting) image_eqI insert_subset list.set_intros(1) list.simps(15)
          domIff dom_map_of_conv_image_fst not_Some_eq image_insert)
    let ?w1 = "setitem a (fst kv) x w"
    have p: "opts (configs ?w1 n) = a" "fst ` set items \<subseteq> fst ` set (heap ?w1 t)"
      using Cons.prems by (auto simp: setitem_def)
    from Cons.IH[OF p(1) Cons.prems(2) p(2), of True] obtain b' d' where
      r: "add_missing n t items True ?w1 = (Inr b', ?w1\<lparr>heap := (heap ?w1)(a := d')\<rparr>)"
      and k: "\<forall>k. contains (heap ?w1 a) k \<longrightarrow> map_of d' k = map_of (heap ?w1 a) k"
      and c: "\<forall>k \<in> fst ` set items. contains d' k"
      by blast
    have e: "?w1\<lparr>heap := (heap ?w1)(a := d')\<rparr> = w\<lparr>heap := (heap w)(a := d')\<rparr>"
      by (simp add: setitem_def)
    have h1: "heap ?w1 a = AList.update (fst kv) x (heap w a)" by (simp add: setitem_def)
    have k': "\<forall>k. contains (heap w a) k \<longrightarrow> map_of d' k = map_of (heap w a) k"
      using k False unfolding h1 by (auto simp: contains_def update_conv')
    have ck: "contains d' (fst kv)"
      using k unfolding h1 by (auto simp: contains_def update_conv')
    have step: "add_missing n t (kv # items) b w = add_missing n t items True ?w1"
      using False x Cons.prems(1) by simp
    have c': "\<forall>k \<in> fst ` set (kv # items). contains d' k"
      using c ck by simp
    have A: "add_missing n t (kv # items) b w = (Inr b', w\<lparr>heap := (heap w)(a := d')\<rparr>)"
      using step r[unfolded e] by (rule trans)
    from A k' c' show ?thesis
      by (intro exI[of _ b'] exI[of _ d'] conjI)
  qed
qed

text \<open>
  C5. A document whose file exists and parses is loaded with a template \<open>T\<close> (an
  existing dictionary). After \<open>load()\<close>, whether its final \<open>write()\<close> succeeded or
  not, every key of \<open>T\<close> is a key of the document's \<open>opts\<close>, and every key of the file
  has in \<open>opts\<close> the value that was loaded from the file, not the default of \<open>T\<close>. The
  template itself is unchanged, and \<open>load()\<close> can only fail in its final \<open>write()\<close>.
\<close>

theorem load_template_additive:
  assumes fl: "fs w (path (configs w n)) = Some f" "content f = Doc ms"
    and tmpl: "template (configs w n) = Some t" "t < next_addr w"
    and w': "w' = snd (JsonConfig_load n w)"
  shows "(\<forall>k \<in> fst ` set (heap w t). contains (heap w' (opts (configs w' n))) k) \<and>
         (\<forall>k \<in> fst ` set ms.
            map_of (heap w' (opts (configs w' n))) k = map_of (fst (thaw_items [] ms w)) k) \<and>
         heap w' t = heap w t \<and>
         fst (JsonConfig_load n w) \<in> {Inr (), Inl ConfigException, Inl EncodeError}"
proof -
  obtain d w1 where th: "thaw_items [] ms w = (d, w1)" by force
  obtain a0 w2 where a0: "alloc d w1 = (a0, w2)" by force
  obtain a w3 where a: "alloc (heap w2 a0) w2 = (a, w3)" by force
  let ?w4 = "update_last_date n (set_opts n a w3)"
  have g1: "grows w w1" using thaw_grows(3)[OF th] .
  have g3: "grows w w3"
    using g1 grows_alloc[OF a0] grows_alloc[OF a] by (blast intro: grows_trans)
  have an: "a = next_addr w2" "a0 = next_addr w1" "heap w3 a = d"
    using a0 a by (auto simp: alloc_def)
  have "next_addr w \<le> next_addr w2"
    using g1 grows_alloc[OF a0] by (auto simp: grows_def)
  then have at: "a \<noteq> t" using tmpl(2) an(1) by simp
  have ht: "heap ?w4 t = heap w t"
    using g3 tmpl(2) by (simp add: grows_def update_last_date_def set_opts_def)
  have t4: "template (configs ?w4 n) = Some t"
    using g3 tmpl(1) by (simp add: grows_def update_last_date_def set_opts_def)
  have o4: "opts (configs ?w4 n) = a"
    by (simp add: update_last_date_def set_opts_def)
  have h4: "heap ?w4 a = d"
    using an(3) by (simp add: update_last_date_def set_opts_def)
  from add_missing_result[OF o4 at subset_refl, of False] obtain b' d' where
    r: "add_missing n t (heap ?w4 t) False ?w4 = (Inr b', ?w4\<lparr>heap := (heap ?w4)(a := d')\<rparr>)"
    and k: "\<forall>k. contains (heap ?w4 a) k \<longrightarrow> map_of d' k = map_of (heap ?w4 a) k"
    and c: "\<forall>k \<in> fst ` set (heap ?w4 t). contains d' k"
    by blast
  let ?w5 = "?w4\<lparr>heap := (heap ?w4)(a := d')\<rparr>"
  have load: "JsonConfig_load n w = (if b' then JsonConfig_write n ?w5 else (Inr (), ?w5))"
    using fl th a0 a t4 r by (simp add: JsonConfig_load_def Let_def and_then_def)
  have cd5: "last_readwrite_date (configs ?w5 n) \<noteq> None"
    by (simp add: update_last_date_def set_opts_def)
  have wr: "heap (snd (JsonConfig_write n ?w5)) = heap ?w5 \<and>
            opts (configs (snd (JsonConfig_write n ?w5)) n) = opts (configs ?w5 n) \<and>
            fst (JsonConfig_write n ?w5) \<in> {Inr (), Inl ConfigException, Inl EncodeError}"
    using cd5
    by (auto simp: JsonConfig_write_def dump_opts_def update_last_date_def Let_def
        split: option.splits)
  have hw': "heap w' = heap ?w5" "opts (configs w' n) = a"
    and res: "fst (JsonConfig_load n w) \<in> {Inr (), Inl ConfigException, Inl EncodeError}"
    using wr o4 unfolding w' load by (auto split: if_splits)
  have keys_d: "fst ` set d = fst ` set ms"
    using thaw_items_keys[OF th] by simp
  have 1: "\<forall>k \<in> fst ` set (heap w t). contains (heap w' (opts (configs w' n))) k"
    using c ht by (simp add: hw')
  have 2: "\<forall>k \<in> fst ` set ms.
            map_of (heap w' (opts (configs w' n))) k = map_of (fst (thaw_items [] ms w)) k"
  proof
    fix k assume "k \<in> fst ` set ms"
    then have "contains d k"
      unfolding keys_d[symmetric] contains_def
      by (metis domIff dom_map_of_conv_image_fst)
    then show "map_of (heap w' (opts (configs w' n))) k = map_of (fst (thaw_items [] ms w)) k"
      using k h4 by (simp add: hw' th)
  qed
  have 3: "heap w' t = heap w t" using ht at by (simp add: hw')
  show ?thesis using 1 2 3 res by blast
qed

theorem load_template_additive_witness:
  "fs template_world (path (configs template_world 0)) =
     Some \<lparr>content = Doc [(''x'', JInt 1)], mtime = 0\<rparr> \<and>
   template (configs template_world 0) = Some 0 \<and>
   heap template_world 0 = [(''x'', VInt 5), (''y'', VDict 1)] \<and>
   fst (JsonConfig_load 0 template_world) = Inr () \<and>
   heap (snd (JsonConfig_load 0 template_world))
     (opts (configs (snd (JsonConfig_load 0 template_world)) 0)) =
     [(''x'', VInt 1), (''y'', VDict 1)] \<and>
   fs (snd (JsonConfig_load 0 template_world)) ''a.json'' =
     Some \<lparr>content = Doc [(''x'', JInt 1), (''y'', JObj [])], mtime = 2\<rparr>"
proof -
  have f: "fs template_world (path (configs template_world 0)) =
             Some \<lparr>content = Doc [(''x'', JInt 1)], mtime = 0\<rparr>"
    and c: "content \<lparr>content = Doc [(''x'', JInt 1)], mtime = 0\<rparr> = Doc [(''x'', JInt 1)]"
    and t: "template (configs template_world 0) = Some 0" "0 < next_addr template_world"
    and h: "heap template_world 0 = [(''x'', VInt 5), (''y'', VDict 1)]"
    by (simp_all add: template_world_def empty_world_def)
  have l: "fst (JsonConfig_load 0 template_world) = Inr ()"
     "heap (snd (JsonConfig_load 0 template_world))
     (opts (configs (snd (JsonConfig_load 0 template_world)) 0)) =
     [(''x'', VInt 1), (''y'', VDict 1)]"
    "fs (snd (JsonConfig_load 0 template_world)) ''a.json'' =
     Some \<lparr>content = Doc [(''x'', JInt 1), (''y'', JObj [])], mtime = 2\<rparr>"
    by (simp_all add: template_world_def empty_world_def cfg_defs)
  show ?thesis
    using load_template_additive[OF f c t refl] f t(1) h l by simp
qed

section \<open>get_and_clear\<close>





section \<open>SubConfig.clear and the live reference\<close>

text \<open>
  C4. A document holds a mapping at \<open>"jobs"\<close> (and its own dictionary exists). The
  sequence \<open>sub = doc.sub("jobs"); sub.set("1", "x"); sub.clear(); sub.set("2", "y")\<close>
  can only fail in a \<open>write\<close>. When it completes, the document holds at \<open>"jobs"\<close> a
  dictionary that did not exist before the sequence (\<open>clear\<close> made it), which is
  exactly \<open>{"2": "y"}\<close>; the view's \<open>opts\<close> is bound to that same dictionary; and the
  file holds \<open>{"2": "y"}\<close> under \<open>"jobs"\<close>.
\<close>

theorem sub_clear_rebinds:
  assumes jobs: "map_of (heap w (opts (configs w n))) ''jobs'' = Some (VDict d)"
    and al: "opts (configs w n) < next_addr w"
    and run: "jobs_sequence (JsonConfigRef n) w = (res, w')"
  shows "res \<in> {Inr (), Inl ConfigException, Inl EncodeError, Inl TypeError} \<and>
         (res = Inr () \<longrightarrow>
            map_of (heap w' (opts (configs w' n))) ''jobs'' = Some (VDict (next_addr w)) \<and>
            heap w' (next_addr w) = [(''2'', VStr ''y'')] \<and>
            views w' (next_view w) = next_addr w \<and>
            (\<exists>ms. fs w' (path (configs w' n)) = Some \<lparr>content = Doc ms, mtime = now w\<rparr> \<and>
                  map_of ms ''jobs'' = Some (JObj [(''2'', JStr ''y'')])))"
proof -
  let ?i = "next_view w"
  let ?s = "SubConfigRef ?i (JsonConfigRef n) ''jobs''"
  let ?o = "opts (configs w n)"
  let ?e = "next_addr w"
  let ?w1 = "w\<lparr>views := (views w)(?i := d), next_view := Suc ?i\<rparr>"
  let ?w1s = "setitem d ''1'' (VStr ''x'') ?w1"
  obtain r1 w2 where wr1: "JsonConfig_write n ?w1s = (r1, w2)" by force
  have set1: "ConfigMixin_set ?s ''1'' (VStr ''x'') ?w1 = (r1, w2)"
    using wr1 by (simp add: ConfigMixin_set_def)
  obtain w3 where cl: "SubConfig_clear ?i (JsonConfigRef n) ''jobs'' w2 = (Inr (), w3)"
    and h3: "heap w3 = (heap w2)(next_addr w2 := [],
                 opts_of w2 (JsonConfigRef n) := AList.update ''jobs'' (VDict (next_addr w2))
                                  (((heap w2)(next_addr w2 := [])) (opts_of w2 (JsonConfigRef n))))"
    and f3: "next_addr w3 = Suc (next_addr w2)" "views w3 = (views w2)(?i := next_addr w2)"
      "configs w3 = configs w2" "now w3 = now w2"
    using SubConfig_clear_result[of ?i "JsonConfigRef n" "''jobs''" w2] by blast
  let ?w3s = "setitem (next_addr w2) ''2'' (VStr ''y'') w3"
  obtain r3 w4 where wr3: "JsonConfig_write n ?w3s = (r3, w4)" by force
  have set2: "ConfigMixin_set ?s ''2'' (VStr ''y'') w3 = (r3, w4)"
    using wr3 by (simp add: ConfigMixin_set_def f3)
  have p1: "persists ?w1s w2" using JsonConfig_write_persists[OF wr1] .
  have p3: "persists ?w3s w4" using JsonConfig_write_persists[OF wr3] .
  have seq: "jobs_sequence (JsonConfigRef n) w =
               (case r1 of Inl e \<Rightarrow> (Inl e, w2) | Inr _ \<Rightarrow> (r3, w4))"
    using jobs set1 cl set2
    by (simp add: jobs_sequence_def sub_result and_then_def split: sum.splits)
  have r1c: "r1 \<in> {Inr (), Inl ConfigException, Inl EncodeError, Inl TypeError}"
    using JsonConfig_write_cases[OF wr1] by auto
  have r3c: "r3 \<in> {Inr (), Inl ConfigException, Inl EncodeError, Inl TypeError}"
    using JsonConfig_write_cases[OF wr3] by auto
  have 1: "res \<in> {Inr (), Inl ConfigException, Inl EncodeError, Inl TypeError}"
    using run r1c r3c unfolding seq by (auto split: sum.splits)
  have 2: "map_of (heap w' (opts (configs w' n))) ''jobs'' = Some (VDict ?e) \<and>
            heap w' ?e = [(''2'', VStr ''y'')] \<and> views w' ?i = ?e \<and>
            (\<exists>ms. fs w' (path (configs w' n)) = Some \<lparr>content = Doc ms, mtime = now w\<rparr> \<and>
                  map_of ms ''jobs'' = Some (JObj [(''2'', JStr ''y'')]))"
    if ok: "res = Inr ()"
  proof -
    from ok run have r3: "r3 = Inr ()" and w': "w' = w4"
      unfolding seq by (auto split: sum.splits)
    have n2: "next_addr w2 = ?e" "opts (configs w2 n) = ?o" "now w2 = now w"
      using p1 by (simp_all add: persists_def setitem_def)
    have ne: "?o \<noteq> ?e" using al by simp
    have o4: "opts (configs w4 n) = ?o" "heap w4 = heap ?w3s" "views w4 = views w3"
      using p3 n2 f3 by (simp_all add: persists_def setitem_def)
    have a: "map_of (heap w4 ?o) ''jobs'' = Some (VDict ?e)"
      using ne by (simp add: o4 setitem_def h3 n2 update_conv')
    have b: "heap w4 ?e = [(''2'', VStr ''y'')]"
      using ne by (simp add: o4 setitem_def h3 n2)
    have c: "views w4 ?i = ?e"
      by (simp add: o4 f3 n2)
    from JsonConfig_write_cases[OF wr3] r3 obtain ms where
      f: "freeze_items (depth_limit ?w3s) (heap ?w3s) (heap ?w3s (opts (configs ?w3s n))) = Some ms"
      and w4: "w4 = update_last_date n
                 (?w3s\<lparr>fs := (fs ?w3s)(path (configs ?w3s n) \<mapsto> \<lparr>content = Doc ms, mtime = now ?w3s\<rparr>)\<rparr>)"
      by auto
    have o3s: "opts (configs ?w3s n) = ?o"
      by (simp add: setitem_def f3 n2)
    have "map_of (heap ?w3s (opts (configs ?w3s n))) ''jobs'' = Some (VDict ?e)"
      using a unfolding o3s o4 .
    from freeze_items_lookup[OF f this] obtain j where
      j: "freeze (depth_limit ?w3s) (heap ?w3s) (VDict ?e) = Some j" "map_of ms ''jobs'' = Some j"
      by blast
    have "heap ?w3s ?e = [(''2'', VStr ''y'')]" using b unfolding o4 .
    from freeze_singleton[OF this j(1)] have jj: "j = JObj [(''2'', JStr ''y'')]" .
    have d: "fs w4 (path (configs w4 n)) = Some \<lparr>content = Doc ms, mtime = now w\<rparr>"
      unfolding w4 by (simp add: update_last_date_def setitem_def f3 n2)
    show ?thesis unfolding w' using a b c d j(2) jj o4(1) by auto
  qed
  show ?thesis using 1 2 by blast
qed

theorem sub_clear_rebinds_witness:
  "map_of (heap jobs_world (opts (configs jobs_world 0))) ''jobs'' = Some (VDict 1) \<and>
   fst (jobs_sequence (JsonConfigRef 0) jobs_world) = Inr () \<and>
   map_of (heap (snd (jobs_sequence (JsonConfigRef 0) jobs_world)) 0) ''jobs'' = Some (VDict 3) \<and>
   heap (snd (jobs_sequence (JsonConfigRef 0) jobs_world)) 3 = [(''2'', VStr ''y'')] \<and>
   heap (snd (jobs_sequence (JsonConfigRef 0) jobs_world)) 1 = [(''1'', VStr ''x'')] \<and>
   fs (snd (jobs_sequence (JsonConfigRef 0) jobs_world)) ''jobdb/1.json'' =
     Some \<lparr>content = Doc [(''jobs'', JObj [(''2'', JStr ''y'')]), (''cron'', JObj [])],
           mtime = 1\<rparr>"
proof -
  let ?r = "jobs_sequence (JsonConfigRef 0) jobs_world"
  have run: "?r = (fst ?r, snd ?r)" by simp
  have a: "map_of (heap jobs_world (opts (configs jobs_world 0))) ''jobs'' = Some (VDict 1)"
    and b: "opts (configs jobs_world 0) < next_addr jobs_world"
    by (simp_all add: jobs_world_def empty_world_def)
  have ev: "fst ?r = Inr ()" "heap (snd ?r) 1 = [(''1'', VStr ''x'')]"
    "opts (configs (snd ?r) 0) = 0" "next_addr jobs_world = 3"
    "fs (snd ?r) ''jobdb/1.json'' =
     Some \<lparr>content = Doc [(''jobs'', JObj [(''2'', JStr ''y'')]), (''cron'', JObj [])],
           mtime = 1\<rparr>"
    by (simp_all add: mixin_defs cfg_defs jobs_world_def empty_world_def)
  show ?thesis
    using sub_clear_rebinds[OF a b run] a ev by simp
qed

section \<open>Sibling views of one key\<close>

text \<open>
  C10. A document holds at key \<open>k\<close> a mapping \<open>d\<close>, a dictionary other than the
  document's own (both exist). Two views are taken, \<open>s1 = doc.sub(k)\<close> and
  \<open>s2 = doc.sub(k)\<close>; then \<open>s1.clear()\<close> and \<open>s2.set(a, v)\<close>. The sequence can only
  fail in the final \<open>write\<close>, and in every case: the document holds at \<open>k\<close> the new
  dictionary that \<open>clear\<close> made, which is still empty; \<open>s1\<close> is bound to it; \<open>s2\<close> is
  still bound to \<open>d\<close>, and it is \<open>d\<close> that received \<open>a\<close>. When the \<open>write\<close> succeeds,
  the file holds \<open>{}\<close> under \<open>k\<close>.
\<close>

theorem sibling_view_detached:
  assumes k: "map_of (heap w (opts (configs w n))) k = Some (VDict d)"
    and al: "opts (configs w n) < next_addr w" "d < next_addr w"
    and nc: "d \<noteq> opts (configs w n)"
    and run: "sibling_sequence (JsonConfigRef n) k a v w = (res, w')"
  shows "res \<in> {Inr (), Inl ConfigException, Inl EncodeError, Inl TypeError} \<and>
         map_of (heap w' (opts (configs w' n))) k = Some (VDict (next_addr w)) \<and>
         heap w' (next_addr w) = [] \<and>
         heap w' d = AList.update a v (heap w d) \<and>
         views w' (next_view w) = next_addr w \<and>
         views w' (Suc (next_view w)) = d \<and>
         (res = Inr () \<longrightarrow>
            (\<exists>ms. fs w' (path (configs w' n)) = Some \<lparr>content = Doc ms, mtime = now w\<rparr> \<and>
                  map_of ms k = Some (JObj [])))"
proof -
  let ?i = "next_view w"
  let ?doc = "JsonConfigRef n"
  let ?s1 = "SubConfigRef ?i ?doc k"
  let ?s2 = "SubConfigRef (Suc ?i) ?doc k"
  let ?o = "opts (configs w n)"
  let ?e = "next_addr w"
  let ?w1 = "w\<lparr>views := (views w)(?i := d), next_view := Suc ?i\<rparr>"
  let ?w2 = "?w1\<lparr>views := (views ?w1)(next_view ?w1 := d), next_view := Suc (next_view ?w1)\<rparr>"
  have s1: "SubconfigMixin_sub ?doc k w = (Inr ?s1, ?w1)"
    using k by (simp add: sub_result)
  have s2: "SubconfigMixin_sub ?doc k ?w1 = (Inr ?s2, ?w2)"
    using k by (simp add: sub_result)
  obtain w3 where cl: "SubConfig_clear ?i ?doc k ?w2 = (Inr (), w3)"
    and h3: "heap w3 = (heap ?w2)(next_addr ?w2 := [],
                 opts_of ?w2 ?doc := AList.update k (VDict (next_addr ?w2))
                                  (((heap ?w2)(next_addr ?w2 := [])) (opts_of ?w2 ?doc)))"
    and f3: "next_addr w3 = Suc (next_addr ?w2)" "views w3 = (views ?w2)(?i := next_addr ?w2)"
      "configs w3 = configs ?w2" "now w3 = now ?w2"
    using SubConfig_clear_result[of ?i ?doc k ?w2] by blast
  let ?w3s = "setitem d a v w3"
  obtain r3 w4 where wr3: "JsonConfig_write n ?w3s = (r3, w4)" by force
  have set2: "ConfigMixin_set ?s2 a v w3 = (r3, w4)"
    using wr3 by (simp add: ConfigMixin_set_def f3)
  have p3: "persists ?w3s w4" using JsonConfig_write_persists[OF wr3] .
  have seq: "sibling_sequence ?doc k a v w = (r3, w4)"
    using s1 s2 cl set2 by (simp add: sibling_sequence_def and_then_def)
  have res: "res = r3" and w': "w' = w4" using run unfolding seq by simp_all
  have 1: "res \<in> {Inr (), Inl ConfigException, Inl EncodeError, Inl TypeError}"
    using JsonConfig_write_cases[OF wr3] unfolding res by auto
  have ne: "?o \<noteq> ?e" "d \<noteq> ?e" using al by simp_all
  have o4: "opts (configs w4 n) = ?o" "heap w4 = heap ?w3s" "views w4 = views w3"
    using p3 f3 by (simp_all add: persists_def setitem_def)
  have a: "map_of (heap w4 ?o) k = Some (VDict ?e)"
    using ne nc by (simp add: o4 setitem_def h3 update_conv')
  have b: "heap w4 ?e = []"
    using ne by (simp add: o4 setitem_def h3)
  have c: "heap w4 d = AList.update a v (heap w d)"
    using ne nc by (simp add: o4 setitem_def h3)
  have v: "views w4 ?i = ?e" "views w4 (Suc ?i) = d"
    by (simp_all add: o4 f3)
  have 2: "\<exists>ms. fs w' (path (configs w' n)) = Some \<lparr>content = Doc ms, mtime = now w\<rparr> \<and>
                  map_of ms k = Some (JObj [])"
    if ok: "res = Inr ()"
  proof -
    from ok have r3: "r3 = Inr ()" unfolding res .
    from JsonConfig_write_cases[OF wr3] r3 obtain ms where
      f: "freeze_items (depth_limit ?w3s) (heap ?w3s) (heap ?w3s (opts (configs ?w3s n))) = Some ms"
      and w4: "w4 = update_last_date n
                 (?w3s\<lparr>fs := (fs ?w3s)(path (configs ?w3s n) \<mapsto> \<lparr>content = Doc ms, mtime = now ?w3s\<rparr>)\<rparr>)"
      by auto
    have o3s: "opts (configs ?w3s n) = ?o"
      by (simp add: setitem_def f3)
    have "map_of (heap ?w3s (opts (configs ?w3s n))) k = Some (VDict ?e)"
      using a unfolding o3s o4 .
    from freeze_items_lookup[OF f this] obtain j where
      j: "freeze (depth_limit ?w3s) (heap ?w3s) (VDict ?e) = Some j" "map_of ms k = Some j"
      by blast
    have "heap ?w3s ?e = []" using b unfolding o4 .
    from freeze_empty_dict[OF this j(1)] have jj: "j = JObj []" .
    have d: "fs w4 (path (configs w4 n)) = Some \<lparr>content = Doc ms, mtime = now w\<rparr>"
      unfolding w4 by (simp add: update_last_date_def setitem_def f3)
    show ?thesis unfolding w' using d j(2) jj by auto
  qed
  show ?thesis using 1 a b c v 2 unfolding w' o4(1) by blast
qed

theorem sibling_view_detached_witness:
  "map_of (heap jobs_world (opts (configs jobs_world 0))) ''jobs'' = Some (VDict 1) \<and>
   fst (sibling_sequence (JsonConfigRef 0) ''jobs'' ''7'' (VStr ''job'') jobs_world) = Inr () \<and>
   map_of (heap (snd (sibling_sequence (JsonConfigRef 0) ''jobs'' ''7'' (VStr ''job'') jobs_world)) 0)
     ''jobs'' = Some (VDict 3) \<and>
   heap (snd (sibling_sequence (JsonConfigRef 0) ''jobs'' ''7'' (VStr ''job'') jobs_world)) 3 = [] \<and>
   heap (snd (sibling_sequence (JsonConfigRef 0) ''jobs'' ''7'' (VStr ''job'') jobs_world)) 1 =
     [(''7'', VStr ''job'')] \<and>
   fs (snd (sibling_sequence (JsonConfigRef 0) ''jobs'' ''7'' (VStr ''job'') jobs_world))
     ''jobdb/1.json'' =
     Some \<lparr>content = Doc [(''jobs'', JObj []), (''cron'', JObj [])], mtime = 1\<rparr>"
proof -
  let ?r = "sibling_sequence (JsonConfigRef 0) ''jobs'' ''7'' (VStr ''job'') jobs_world"
  have run: "?r = (fst ?r, snd ?r)" by simp
  have a: "map_of (heap jobs_world (opts (configs jobs_world 0))) ''jobs'' = Some (VDict 1)"
    and b: "opts (configs jobs_world 0) < next_addr jobs_world" "1 < next_addr jobs_world"
    and c: "1 \<noteq> opts (configs jobs_world 0)"
    by (simp_all add: jobs_world_def empty_world_def)
  have ev: "fst ?r = Inr ()" "opts (configs (snd ?r) 0) = 0" "next_addr jobs_world = 3"
    "heap jobs_world 1 = []"
    "fs (snd ?r) ''jobdb/1.json'' =
     Some \<lparr>content = Doc [(''jobs'', JObj []), (''cron'', JObj [])], mtime = 1\<rparr>"
    by (simp_all add: mixin_defs cfg_defs jobs_world_def empty_world_def)
  show ?thesis
    using sibling_view_detached[OF a b c run] a ev by simp
qed

section \<open>Documents of one store and the shared template\<close>

text \<open>
  C2. A mutation of one document of a store should leave the data of every other
  document of that store unchanged, nested mappings included. The code does not
  guarantee it. \<open>JsonConfig.create\<close> copies the template with
  \<open>dict(self.template)\<close>, a shallow copy, and every document of a store gets the same
  template object: the documents have dictionaries of their own, but the mappings nested
  in the template are shared by all of them. In the store of job documents, with the
  template \<open>{"jobs": {}, "cron": {}}\<close> and no files, the documents of the ids 1 and 2
  are created; both hold \<open>{"jobs": {}, "cron": {}}\<close>. Then
  \<open>sub("jobs").set("5", "x")\<close> on the document of id 1 changes the data of the
  document of id 2 as well, to \<open>{"jobs": {"5": "x"}, "cron": {}}\<close>: the two documents
  hold the same object at \<open>"jobs"\<close>.
\<close>

theorem shared_template_aliasing:
  "fst (get_config 0 ''1'' store_world) = Inr (JsonConfigRef 0) \<and>
   fst (get_config 0 ''2'' (snd (get_config 0 ''1'' store_world))) = Inr (JsonConfigRef 1) \<and>
   path (configs two_docs_world 0) = ''jobdb/1.json'' \<and>
   path (configs two_docs_world 1) = ''jobdb/2.json'' \<and>
   opts (configs two_docs_world 0) \<noteq> opts (configs two_docs_world 1) \<and>
   data_of two_docs_world 1 = Some [(''jobs'', JObj []), (''cron'', JObj [])] \<and>
   fst (and_then (SubconfigMixin_sub (JsonConfigRef 0) ''jobs'' two_docs_world)
          (\<lambda>s w. ConfigMixin_set s ''5'' (VStr ''x'') w)) = Inr () \<and>
   data_of after_set_world 0 =
     Some [(''jobs'', JObj [(''5'', JStr ''x'')]), (''cron'', JObj [])] \<and>
   data_of after_set_world 1 =
     Some [(''jobs'', JObj [(''5'', JStr ''x'')]), (''cron'', JObj [])] \<and>
   map_of (heap after_set_world (opts (configs after_set_world 0))) ''jobs'' =
   map_of (heap after_set_world (opts (configs after_set_world 1))) ''jobs''"
  by (simp add: after_set_world_def two_docs_world_def store_world_def empty_world_def
      data_of_def db_defs mixin_defs cfg_defs)

section \<open>Resumption runs once\<close>

text \<open>
  C8. Once the handler of the ready signal has completed, the flag \<open>jobs_resumed\<close> is
  set, and another invocation returns at once and leaves the state as it is: it submits
  no job and creates no schedule. (By the same theorem this holds for every later
  invocation.)
\<close>

theorem on_ready_once:
  assumes "on_ready c = (Inr (), c1)"
  shows "jobs_resumed c1 \<and> on_ready c1 = (Inr (), c1) \<and>
         submitted (snd (on_ready c1)) = submitted c1 \<and>
         scheduled (snd (on_ready c1)) = scheduled c1"
proof -
  have "jobs_resumed c1"
    using assms
    by (auto simp: on_ready_def and_next_def split: if_splits sum.splits prod.splits)
  then show ?thesis by (simp add: on_ready_def)
qed

text \<open>
  After a restart with one stored schedule and one stored job, the first invocation
  creates the schedule and submits the job; the second does nothing.
\<close>

theorem on_ready_once_witness:
  "fst (on_ready restart_core) = Inr () \<and>
   scheduled (snd (on_ready restart_core)) = [example_header 1 7] \<and>
   submitted (snd (on_ready restart_core)) = [example_header 2 7] \<and>
   jobs_resumed (snd (on_ready restart_core)) \<and>
   on_ready (snd (on_ready restart_core)) = (Inr (), snd (on_ready restart_core))"
proof -
  have ev: "fst (on_ready restart_core) = Inr ()"
    "scheduled (snd (on_ready restart_core)) = [example_header 1 7]"
    "submitted (snd (on_ready restart_core)) = [example_header 2 7]"
    by (simp_all add: restart_core_def restart_world_def empty_world_def example_factory_def
        example_header_def core_defs db_defs mixin_defs cfg_defs)
  have run: "on_ready restart_core = (Inr (), snd (on_ready restart_core))"
    using ev(1) by (metis prod.collapse)
  show ?thesis
    using on_ready_once[OF run] ev by simp
qed

section \<open>delete and the missing key\<close>

lemma sub_delete_twice:
  assumes first: "sub_delete (JsonConfigRef m) name h True w = (Inr (), w1)"
    and nm: "last name \<notin> set ''0123456789''"
  shows "\<exists>a. sub_delete (JsonConfigRef m) name h True w1 =
           (Inr (), w1\<lparr>views := (views w1)(next_view w1 := a), next_view := Suc (next_view w1)\<rparr>)"
proof -
  let ?doc = "JsonConfigRef m"
  let ?key = "str (header_id h)"
  let ?o = "opts (configs w m)"
  from first obtain s wb where sb: "SubconfigMixin_sub ?doc name w = (Inr s, wb)"
    and dl: "ConfigMixin_delete s ?key True wb = (Inr (), w1)"
    by (auto simp: sub_delete_def and_then_def split: prod.splits sum.splits)
  from sb obtain a where a: "map_of (heap w ?o) name = Some (VDict a)"
    and s: "s = SubConfigRef (next_view w) ?doc name"
    and wb: "wb = w\<lparr>views := (views w)(next_view w := a), next_view := Suc (next_view w)\<rparr>"
    by (auto simp: SubconfigMixin_sub_def split: option.splits val.splits)
  have oa: "opts_of wb s = a" by (simp add: s wb)
  have kn: "?key \<noteq> name" using nm by (rule str_not_name)
  have post: "opts (configs w1 m) = ?o \<and> map_of (heap w1 ?o) name = Some (VDict a) \<and>
              \<not> contains (heap w1 a) ?key"
  proof (cases "contains (heap wb a) ?key")
    case False
    with dl have "w1 = wb" by (simp add: ConfigMixin_delete_def oa)
    with False a show ?thesis by (simp add: wb)
  next
    case True
    with dl have wr: "write_cfg s (delitem a ?key wb) = (Inr (), w1)"
      by (simp add: ConfigMixin_delete_def oa)
    from write_cfg_persists[OF wr] have p: "persists (delitem a ?key wb) w1" .
    have h1: "heap w1 = (heap w)(a := AList.delete ?key (heap w a))"
      "opts (configs w1 m) = ?o"
      using p by (simp_all add: persists_def delitem_def wb)
    have "map_of (heap w1 ?o) name = Some (VDict a)"
      using a kn by (auto simp: h1)
    moreover have "\<not> contains (heap w1 a) ?key"
      by (simp add: h1 contains_def delete_conv')
    ultimately show ?thesis using h1 by simp
  qed
  then have sb2: "SubconfigMixin_sub ?doc name w1 =
      (Inr (SubConfigRef (next_view w1) ?doc name),
       w1\<lparr>views := (views w1)(next_view w1 := a), next_view := Suc (next_view w1)\<rparr>)"
    by (simp add: sub_result)
  have "sub_delete ?doc name h True w1 =
           (Inr (), w1\<lparr>views := (views w1)(next_view w1 := a), next_view := Suc (next_view w1)\<rparr>)"
    using post by (simp add: sub_delete_def sb2 and_then_def ConfigMixin_delete_def)
  then show ?thesis by blast
qed

lemma sub_delete_stores:
  "sub_delete r name h ig w = (res, w1) \<Longrightarrow> stores w1 = stores w"
  by (auto simp: sub_delete_def and_then_def SubconfigMixin_sub_def ConfigMixin_delete_def
      delitem_def split: prod.splits sum.splits option.splits val.splits if_splits
      dest!: write_cfg_persists simp: persists_def)

lemma cfg_job_delete_twice:
  assumes docs: "list_all is_document (map snd (db (stores (sys c) (job_db c))))"
    and first: "cfg_job_delete h c = (Inr (), c1)"
  shows "\<exists>a. cfg_job_delete h c1 =
           (Inr (), c1\<lparr>sys := (sys c1)\<lparr>views := (views (sys c1))(next_view (sys c1) := a),
                                        next_view := Suc (next_view (sys c1))\<rparr>\<rparr>)"
proof -
  let ?cid = "str (guild_id h)"
  from first have g: "guild_id h \<in> set (guilds c)"
    by (auto simp: cfg_job_delete_def get_jobcfg_for_header_def and_next_def split: if_splits)
  from first g obtain cfg wa where gc: "get_config (job_db c) ?cid (sys c) = (Inr cfg, wa)"
    and sd: "sub_delete cfg ''jobs'' h True wa = (Inr (), sys c1)"
    and c1: "c1 = c\<lparr>sys := sys c1\<rparr>"
    by (auto simp: cfg_job_delete_def get_jobcfg_for_header_def and_next_def lift_def
        split: prod.splits sum.splits)
  from get_config_stored[OF gc docs] obtain m where
    st: "map_of (db (stores wa (job_db c))) ?cid = Some cfg" and m: "cfg = JsonConfigRef m"
    by (cases cfg) auto
  have "stores (sys c1) = stores wa" using sub_delete_stores[OF sd] .
  with st have "map_of (db (stores (sys c1) (job_db c))) ?cid = Some cfg" by simp
  from get_config_existing[OF this]
  have gc2: "get_config (job_db c) ?cid (sys c1) = (Inr cfg, sys c1)" .
  from sub_delete_twice[OF sd[unfolded m]] obtain a where
    sd2: "sub_delete cfg ''jobs'' h True (sys c1) =
      (Inr (), (sys c1)\<lparr>views := (views (sys c1))(next_view (sys c1) := a),
                        next_view := Suc (next_view (sys c1))\<rparr>)"
    unfolding m by auto
  have f: "job_db c1 = job_db c" "guilds c1 = guilds c"
    by (subst c1, simp)+
  have "cfg_job_delete h c1 =
           (Inr (), c1\<lparr>sys := (sys c1)\<lparr>views := (views (sys c1))(next_view (sys c1) := a),
                                        next_view := Suc (next_view (sys c1))\<rparr>\<rparr>)"
    using g by (simp add: cfg_job_delete_def get_jobcfg_for_header_def and_next_def lift_def
        f gc2 sd2)
  then show ?thesis by blast
qed

lemma cfg_sched_delete_missing:
  assumes "get_jobcfg_for_header h c = (Inr cfg, c2)"
    and "map_of (heap (sys c2) (opts_of (sys c2) cfg)) ''cron'' = Some (VDict a)"
    and "\<not> contains (heap (sys c2) a) (str (header_id h))"
  shows "fst (cfg_sched_delete h c) = Inl (KeyError (str (header_id h))) \<and>
         heap (sys (snd (cfg_sched_delete h c))) = heap (sys c2) \<and>
         fs (sys (snd (cfg_sched_delete h c))) = fs (sys c2)"
  using assms
  by (simp add: cfg_sched_delete_def and_next_def lift_def sub_delete_def sub_result
      and_then_def ConfigMixin_delete_def)

text \<open>
  C9. For a document or a view and a key absent from its \<open>opts\<close>, \<open>delete(k)\<close>
  raises KeyError and \<open>delete(k, ignore_keyerror=True)\<close> returns; neither changes the
  state. The handler of job-stopped and job-cancelled is idempotent: in a store whose
  entries are documents, once a delivery has completed, a second delivery for the same
  header completes and changes no dictionary, document, store or file (it constructs a
  view, and nothing else). The handler of schedule-deleted propagates the failure: when
  the job document of the header's guild holds a mapping at \<open>"cron"\<close> that lacks the
  id, the handler raises KeyError and changes no dictionary and no file.
\<close>

theorem delete_missing_key:
  "(\<not> contains (heap w (opts_of w r)) k \<longrightarrow>
      ConfigMixin_delete r k False w = (Inl (KeyError k), w) \<and>
      ConfigMixin_delete r k True w = (Inr (), w)) \<and>
   (list_all is_document (map snd (db (stores (sys c) (job_db c)))) \<longrightarrow>
    cfg_job_delete h c = (Inr (), c1) \<longrightarrow>
      fst (cfg_job_delete h c1) = Inr () \<and>
      heap (sys (snd (cfg_job_delete h c1))) = heap (sys c1) \<and>
      configs (sys (snd (cfg_job_delete h c1))) = configs (sys c1) \<and>
      stores (sys (snd (cfg_job_delete h c1))) = stores (sys c1) \<and>
      fs (sys (snd (cfg_job_delete h c1))) = fs (sys c1)) \<and>
   (get_jobcfg_for_header h' c' = (Inr cfg, c2) \<longrightarrow>
    map_of (heap (sys c2) (opts_of (sys c2) cfg)) ''cron'' = Some (VDict a) \<longrightarrow>
    \<not> contains (heap (sys c2) a) (str (header_id h')) \<longrightarrow>
      fst (cfg_sched_delete h' c') = Inl (KeyError (str (header_id h'))) \<and>
      heap (sys (snd (cfg_sched_delete h' c'))) = heap (sys c2) \<and>
      fs (sys (snd (cfg_sched_delete h' c'))) = fs (sys c2))"
proof (intro conjI impI)
  assume "\<not> contains (heap w (opts_of w r)) k"
  then show "ConfigMixin_delete r k False w = (Inl (KeyError k), w)"
    and "ConfigMixin_delete r k True w = (Inr (), w)"
    using delete_absent by blast+
next
  assume d: "list_all is_document (map snd (db (stores (sys c) (job_db c))))"
    and f: "cfg_job_delete h c = (Inr (), c1)"
  from cfg_job_delete_twice[OF d f] obtain a' where
    e: "cfg_job_delete h c1 =
           (Inr (), c1\<lparr>sys := (sys c1)\<lparr>views := (views (sys c1))(next_view (sys c1) := a'),
                                        next_view := Suc (next_view (sys c1))\<rparr>\<rparr>)"
    by blast
  show "fst (cfg_job_delete h c1) = Inr ()"
    and "heap (sys (snd (cfg_job_delete h c1))) = heap (sys c1)"
    and "configs (sys (snd (cfg_job_delete h c1))) = configs (sys c1)"
    and "stores (sys (snd (cfg_job_delete h c1))) = stores (sys c1)"
    and "fs (sys (snd (cfg_job_delete h c1))) = fs (sys c1)"
    unfolding e by simp_all
next
  assume g: "get_jobcfg_for_header h' c' = (Inr cfg, c2)"
    and m: "map_of (heap (sys c2) (opts_of (sys c2) cfg)) ''cron'' = Some (VDict a)"
    and n: "\<not> contains (heap (sys c2) a) (str (header_id h'))"
  from cfg_sched_delete_missing[OF g m n]
  show "fst (cfg_sched_delete h' c') = Inl (KeyError (str (header_id h')))"
    and "heap (sys (snd (cfg_sched_delete h' c'))) = heap (sys c2)"
    and "fs (sys (snd (cfg_sched_delete h' c'))) = fs (sys c2)"
    by simp_all
qed

theorem delete_missing_key_witness:
  "\<not> contains (heap restart_world (opts_of restart_world (JsonConfigRef 0))) ''zz'' \<and>
   ConfigMixin_delete (JsonConfigRef 0) ''zz'' False restart_world =
     (Inl (KeyError ''zz''), restart_world) \<and>
   ConfigMixin_delete (JsonConfigRef 0) ''zz'' True restart_world = (Inr (), restart_world) \<and>
   fst (cfg_job_delete (example_header 2 7) restart_core) = Inr () \<and>
   heap (sys (snd (cfg_job_delete (example_header 2 7) restart_core))) 4 = [] \<and>
   fst (cfg_job_delete (example_header 2 7)
          (snd (cfg_job_delete (example_header 2 7) restart_core))) = Inr () \<and>
   heap (sys (snd (cfg_job_delete (example_header 2 7)
                     (snd (cfg_job_delete (example_header 2 7) restart_core))))) =
     heap (sys (snd (cfg_job_delete (example_header 2 7) restart_core))) \<and>
   fs (sys (snd (cfg_job_delete (example_header 2 7)
                   (snd (cfg_job_delete (example_header 2 7) restart_core))))) =
     fs (sys (snd (cfg_job_delete (example_header 2 7) restart_core))) \<and>
   fst (cfg_sched_delete (example_header 5 7) restart_core) = Inl (KeyError ''5'')"
proof -
  let ?h = "example_header 2 7"
  let ?c1 = "snd (cfg_job_delete ?h restart_core)"
  have k: "\<not> contains (heap restart_world (opts_of restart_world (JsonConfigRef 0))) ''zz''"
    by (simp add: restart_world_def empty_world_def contains_def)
  have d: "list_all is_document (map snd (db (stores (sys restart_core) (job_db restart_core))))"
    by (simp add: restart_core_def restart_world_def empty_world_def)
  have ev: "fst (cfg_job_delete ?h restart_core) = Inr ()" "heap (sys ?c1) 4 = []"
    by (simp_all add: restart_core_def restart_world_def empty_world_def example_header_def
        core_defs db_defs mixin_defs cfg_defs)
  have f: "cfg_job_delete ?h restart_core = (Inr (), ?c1)"
    using ev(1) by (metis prod.collapse)
  have g: "get_jobcfg_for_header (example_header 5 7) restart_core =
             (Inr (JsonConfigRef 0), restart_core)"
    and m: "map_of (heap (sys restart_core) (opts_of (sys restart_core) (JsonConfigRef 0))) ''cron'' =
             Some (VDict 5)"
    and n: "\<not> contains (heap (sys restart_core) 5) (str (header_id (example_header 5 7)))"
    and s: "str (header_id (example_header 5 7)) = ''5''"
    by (simp_all add: restart_core_def restart_world_def empty_world_def example_header_def
        core_defs db_defs contains_def and_then_def)
  show ?thesis
    using delete_missing_key[of restart_world "JsonConfigRef 0" "''zz''" restart_core ?h ?c1
        "example_header 5 7" restart_core "JsonConfigRef 0" restart_core 5]
      k d f g m n ev s
    by simp
qed

section \<open>The counter of schedule ids\<close>

lemma guards_alloc:
  assumes "guards mi m w" "map_of d ''cron'' \<noteq> Some (VDict m)" "alloc d w = (a, w')"
  shows "guards mi m w' \<and> heap w' m = heap w m \<and> m < a"
  using assms by (auto simp: guards_def alloc_def split: if_splits)

lemma guards_thaw:
  "guards mi m w \<Longrightarrow> thaw j w = (v, w') \<Longrightarrow>
     guards mi m w' \<and> heap w' m = heap w m \<and> v \<noteq> VDict m"
  "guards mi m w \<Longrightarrow> thaw_list js w = (vs, w') \<Longrightarrow>
     guards mi m w' \<and> heap w' m = heap w m"
  "guards mi m w \<Longrightarrow> thaw_items acc ms w = (d, w') \<Longrightarrow>
     map_of acc ''cron'' \<noteq> Some (VDict m) \<Longrightarrow>
     guards mi m w' \<and> heap w' m = heap w m \<and> map_of d ''cron'' \<noteq> Some (VDict m)"
proof (induction j w and js w and acc ms w arbitrary: v w' and vs w' and d w'
    rule: thaw_thaw_list_thaw_items.induct)
  case (5 js w)
  then show ?case by (auto split: prod.splits)
next
  case (6 ms w)
  from "6.prems"(2) obtain d w1 a where t: "thaw_items [] ms w = (d, w1)"
    and al: "alloc d w1 = (a, w')" and v: "v = VDict a"
    by (auto split: prod.splits)
  from "6.IH"[OF "6.prems"(1) t] have g1: "guards mi m w1" "heap w1 m = heap w m"
    "map_of d ''cron'' \<noteq> Some (VDict m)" by simp_all
  from guards_alloc[OF g1(1) g1(3) al] g1(2) v show ?case by auto
next
  case (8 j js w)
  from "8.prems"(2) obtain v1 w1 vs1 where t: "thaw j w = (v1, w1)"
    and tl: "thaw_list js w1 = (vs1, w')"
    by (auto split: prod.splits)
  from "8.IH"(1)[OF "8.prems"(1) t] have g1: "guards mi m w1" "heap w1 m = heap w m" by simp_all
  from "8.IH"(2)[OF t[symmetric] g1(1) tl] g1(2) show ?case by simp
next
  case (10 acc e ms w)
  from "10.prems"(2) obtain v1 w1 where t: "thaw (snd e) w = (v1, w1)"
    and ti: "thaw_items (AList.update (fst e) v1 acc) ms w1 = (d, w')"
    by (auto split: prod.splits)
  from "10.IH"(1)[OF "10.prems"(1) t] have g1: "guards mi m w1" "heap w1 m = heap w m"
    "v1 \<noteq> VDict m" by simp_all
  have "map_of (AList.update (fst e) v1 acc) ''cron'' \<noteq> Some (VDict m)"
    using g1(3) "10.prems"(3) by (simp add: update_conv')
  from "10.IH"(2)[OF t[symmetric] g1(1) ti this] g1(2) show ?case by simp
qed auto

lemma guards_persists:
  "persists w w' \<Longrightarrow> guards mi m w \<Longrightarrow> guards mi m w' \<and> heap w' m = heap w m"
  by (simp add: persists_def guards_def)

lemma guards_write:
  "JsonConfig_write n w = (r, w') \<Longrightarrow> guards mi m w \<Longrightarrow> guards mi m w' \<and> heap w' m = heap w m"
  by (blast dest: JsonConfig_write_persists guards_persists)

lemma guards_setitem:
  assumes "guards mi m w" "a \<noteq> m" "k = ''cron'' \<longrightarrow> v \<noteq> VDict m"
  shows "guards mi m (setitem a k v w) \<and> heap (setitem a k v w) m = heap w m"
  using assms by (auto simp: guards_def setitem_def update_conv')

lemma guards_setitem_own:
  assumes "guards mi m w" "k \<noteq> ''cron''"
  shows "guards mi m (setitem m k v w)"
  using assms by (auto simp: guards_def setitem_def update_conv')

lemma guards_add_missing:
  assumes "guards mi m w" "opts (configs w n) \<noteq> m" "add_missing n t items b w = (r, w')"
  shows "guards mi m w' \<and> heap w' m = heap w m"
  using assms
proof (induction items arbitrary: w b)
  case Nil
  then show ?case by simp
next
  case (Cons kv items)
  show ?case
  proof (cases "contains (heap w (opts (configs w n))) (fst kv)")
    case True
    with Cons.prems(3) have "add_missing n t items b w = (r, w')" by simp
    from Cons.IH[OF Cons.prems(1,2) this] show ?thesis .
  next
    case False
    show ?thesis
    proof (cases "map_of (heap w t) (fst kv)")
      case None
      with False Cons.prems show ?thesis by simp
    next
      case (Some x)
      let ?w1 = "setitem (opts (configs w n)) (fst kv) x w"
      from False Some Cons.prems(3) have r: "add_missing n t items True ?w1 = (r, w')" by simp
      have "fst kv = ''cron'' \<longrightarrow> x \<noteq> VDict m"
        using Some Cons.prems(1) by (auto simp: guards_def)
      from guards_setitem[OF Cons.prems(1,2) this]
      have g: "guards mi m ?w1" "heap ?w1 m = heap w m" by simp_all
      have o: "opts (configs ?w1 n) \<noteq> m" using Cons.prems(2) by (simp add: setitem_def)
      from Cons.IH[OF g(1) o r] g(2) show ?thesis by simp
    qed
  qed
qed

lemma guards_set_opts:
  "guards mi m w \<Longrightarrow> n \<noteq> mi \<Longrightarrow>
   guards mi m (set_opts n a w) \<and> heap (set_opts n a w) m = heap w m"
  by (simp add: guards_def set_opts_def)

lemma guards_update_last_date:
  "guards mi m w \<Longrightarrow>
   guards mi m (update_last_date n w) \<and> heap (update_last_date n w) m = heap w m"
  by (auto simp: guards_def update_last_date_def)

lemma guards_load:
  assumes g: "guards mi m w" and n: "n \<noteq> mi" and run: "JsonConfig_load n w = (r, w')"
  shows "guards mi m w' \<and> heap w' m = heap w m"
proof (cases "fs w (path (configs w n))")
  case None
  with run g show ?thesis by (simp add: JsonConfig_load_def)
next
  case (Some f)
  show ?thesis
  proof (cases "content f")
    case Corrupt
    with Some run g show ?thesis by (simp add: JsonConfig_load_def)
  next
    case (Doc ms)
    obtain d w1 where th: "thaw_items [] ms w = (d, w1)" by force
    obtain a0 w2 where a0: "alloc d w1 = (a0, w2)" by force
    obtain a w3 where a: "alloc (heap w2 a0) w2 = (a, w3)" by force
    let ?w4 = "update_last_date n (set_opts n a w3)"
    from guards_thaw(3)[OF g th] have g1: "guards mi m w1" "heap w1 m = heap w m"
      "map_of d ''cron'' \<noteq> Some (VDict m)" by simp_all
    from guards_alloc[OF g1(1) g1(3) a0] have g2: "guards mi m w2" "heap w2 m = heap w1 m"
      by simp_all
    have "heap w2 a0 = d" using a0 by (auto simp: alloc_def)
    with g1(3) have "map_of (heap w2 a0) ''cron'' \<noteq> Some (VDict m)" by simp
    from guards_alloc[OF g2(1) this a] have g3: "guards mi m w3" "heap w3 m = heap w2 m" "m < a"
      by simp_all
    from guards_set_opts[OF g3(1) n, of a]
    have g4: "guards mi m ?w4" "heap ?w4 m = heap w3 m"
      using guards_update_last_date by auto
    have o4: "opts (configs ?w4 n) \<noteq> m"
      using g3(3) by (simp add: update_last_date_def set_opts_def)
    show ?thesis
    proof (cases "template (configs ?w4 n)")
      case None
      with Some Doc th a0 a run have "w' = ?w4" by (simp add: JsonConfig_load_def Let_def)
      with g4 g3 g2 g1 show ?thesis by simp
    next
      case (Some t)
      obtain rb w5 where am: "add_missing n t (heap ?w4 t) False ?w4 = (rb, w5)" by force
      from guards_add_missing[OF g4(1) o4 am] have g5: "guards mi m w5" "heap w5 m = heap ?w4 m"
        by simp_all
      have h5: "heap w5 m = heap w m" using g5 g4 g3 g2 g1 by simp
      from \<open>fs w (path (configs w n)) = Some f\<close> Doc th a0 a Some am run
      have w': "(case rb of Inl e \<Rightarrow> (Inl e, w5)
                 | Inr b \<Rightarrow> if b then JsonConfig_write n w5 else (Inr (), w5)) = (r, w')"
        by (simp add: JsonConfig_load_def Let_def and_then_def split: sum.splits)
      show ?thesis
      proof (cases rb)
        case (Inl e)
        with w' g5 h5 show ?thesis by simp
      next
        case (Inr b)
        show ?thesis
        proof (cases b)
          case True
          with Inr w' have "JsonConfig_write n w5 = (r, w')" by simp
          from guards_write[OF this g5(1)] h5 show ?thesis by simp
        next
          case False
          with Inr w' g5 h5 show ?thesis by simp
        qed
      qed
    qed
  qed
qed

lemma guards_create:
  assumes g: "guards mi m w" and n: "n \<noteq> mi" and run: "JsonConfig_create n w = (r, w')"
  shows "guards mi m w' \<and> heap w' m = heap w m"
proof (cases "template (configs w n)")
  case None
  with run have "JsonConfig_write n w = (r, w')" by (simp add: JsonConfig_create_def)
  from guards_write[OF this g] show ?thesis .
next
  case (Some t)
  obtain a w1 where a: "alloc (heap w t) w = (a, w1)" by force
  have "map_of (heap w t) ''cron'' \<noteq> Some (VDict m)" using g by (simp add: guards_def)
  from guards_alloc[OF g this a] have g1: "guards mi m w1" "heap w1 m = heap w m" by simp_all
  from guards_set_opts[OF g1(1) n, of a]
  have g2: "guards mi m (set_opts n a w1)" "heap (set_opts n a w1) m = heap w1 m" by simp_all
  from Some a run have "JsonConfig_write n (set_opts n a w1) = (r, w')"
    by (simp add: JsonConfig_create_def)
  from guards_write[OF this g2(1)] g2(2) g1(2) show ?thesis by simp
qed

lemma guards_JsonConfig:
  assumes g: "guards mi m w" and run: "JsonConfig p t cd w = (r, w')"
  shows "guards mi m w' \<and> heap w' m = heap w m"
proof -
  obtain a w1 where a: "alloc [] w = (a, w1)" by force
  from guards_alloc[OF g _ a] have g1: "guards mi m w1" "heap w1 m = heap w m" by simp_all
  let ?n = "next_config w1"
  let ?w2 = "w1\<lparr>configs := (configs w1)(?n :=
                        \<lparr>opts = a, path = p, template = t, check_date = cd,
                         last_readwrite_date = None\<rparr>),
                     next_config := Suc ?n\<rparr>"
  have n: "?n \<noteq> mi" using g1(1) by (auto simp: guards_def)
  have g2: "guards mi m ?w2" "heap ?w2 m = heap w1 m"
    using g1(1) by (auto simp: guards_def)
  obtain ri w3 where i: "JsonConfig_init ?n ?w2 = (ri, w3)" by force
  have g3: "guards mi m w3 \<and> heap w3 m = heap ?w2 m"
    using i guards_load[OF g2(1) n] guards_create[OF g2(1) n]
    by (auto simp: JsonConfig_init_def split: if_splits)
  have "w' = w3"
    using run a i by (auto simp: JsonConfig_def Let_def and_then_def split: sum.splits)
  with g3 g2 g1 show ?thesis by simp
qed

lemma guards_stores_update:
  "guards mi m w \<Longrightarrow> guards mi m (w\<lparr>stores := s\<rparr>) \<and> heap (w\<lparr>stores := s\<rparr>) m = heap w m"
  by (simp add: guards_def)

lemma guards_get_template:
  assumes g: "guards mi m w" and run: "get_template s cid w = (r, w')"
  shows "guards mi m w' \<and> heap w' m = heap w m"
proof -
  have "w' = w \<or> (\<exists>a. alloc [] w = (a, w'))"
    using run
    by (auto simp: get_template_def split: if_splits option.splits val.splits prod.splits)
  then show ?thesis
  proof
    assume "w' = w" with g show ?thesis by simp
  next
    assume "\<exists>a. alloc [] w = (a, w')"
    then obtain a where "alloc [] w = (a, w')" ..
    from guards_alloc[OF g _ this] show ?thesis by simp
  qed
qed

lemma guards_create_config:
  assumes g: "guards mi m w" and run: "create_config s cid w = (r, w')"
  shows "guards mi m w' \<and> heap w' m = heap w m"
proof -
  obtain rt w1 where t: "get_template s cid w = (rt, w1)" by force
  from guards_get_template[OF g t] have g1: "guards mi m w1" "heap w1 m = heap w m" by simp_all
  show ?thesis
  proof (cases rt)
    case (Inl e)
    with run t have "w' = w1" by (simp add: create_config_def and_then_def)
    with g1 show ?thesis by simp
  next
    case (Inr tm)
    obtain rc w2 where c: "JsonConfig (cfg_loc (stores w1 s) cid) tm False w1 = (rc, w2)"
      by force
    from guards_JsonConfig[OF g1(1) c] have g2: "guards mi m w2" "heap w2 m = heap w1 m"
      by simp_all
    from run t Inr c have "w' = w2 \<or> (\<exists>x. w' = w2\<lparr>stores := x\<rparr>)"
      by (auto simp: create_config_def and_then_def split: sum.splits)
    with g2 g1 guards_stores_update[OF g2(1)] show ?thesis by auto
  qed
qed

lemma guards_get_config:
  assumes g: "guards mi m w" and run: "get_config s cid w = (r, w')"
  shows "guards mi m w' \<and> heap w' m = heap w m"
proof (cases "contains (db (stores w s)) cid")
  case True
  with run have "w' = w"
    by (auto simp: get_config_def and_then_def split: option.splits)
  with g show ?thesis by simp
next
  case False
  obtain rc w1 where c: "create_config s cid w = (rc, w1)" by force
  from guards_create_config[OF g c] have g1: "guards mi m w1" "heap w1 m = heap w m" by simp_all
  from run False c have "w' = w1"
    by (auto simp: get_config_def and_then_def split: sum.splits option.splits)
  with g1 show ?thesis by simp
qed

lemma guards_views_update:
  "guards mi m w \<Longrightarrow>
   guards mi m (w\<lparr>views := x, next_view := y\<rparr>) \<and> heap (w\<lparr>views := x, next_view := y\<rparr>) m = heap w m"
  by (simp add: guards_def)

lemma guards_sub_set:
  assumes g: "guards mi m w" and run: "sub_set cfg ''cron'' h w = (r, w')"
  shows "guards mi m w' \<and> heap w' m = heap w m"
proof (cases "\<exists>a. map_of (heap w (opts_of w cfg)) ''cron'' = Some (VDict a)")
  case False
  with run have "w' = w"
    by (auto simp: sub_set_def SubconfigMixin_sub_def and_then_def
        split: option.splits val.splits)
  with g show ?thesis by simp
next
  case True
  then obtain a where a: "map_of (heap w (opts_of w cfg)) ''cron'' = Some (VDict a)" ..
  have am: "a \<noteq> m" using a g by (auto simp: guards_def)
  let ?i = "next_view w"
  let ?w1 = "w\<lparr>views := (views w)(?i := a), next_view := Suc ?i\<rparr>"
  let ?s = "SubConfigRef ?i cfg ''cron''"
  from guards_views_update[OF g] have g1: "guards mi m ?w1" "heap ?w1 m = heap w m"
    by simp_all
  obtain v w2 where th: "thaw (JObj (as_dict h)) ?w1 = (v, w2)" by force
  from guards_thaw(1)[OF g1(1) th] have g2: "guards mi m w2" "heap w2 m = heap ?w1 m"
    "v \<noteq> VDict m" by simp_all
  from thaw_grows(1)[OF th] have "views w2 = views ?w1" by (simp add: grows_def)
  then have o2: "views w2 ?i = a" by simp
  let ?w3 = "setitem a (str (header_id h)) v w2"
  from guards_setitem[OF g2(1) am, of "str (header_id h)" v] g2(3)
  have g3: "guards mi m ?w3" "heap ?w3 m = heap w2 m" by simp_all
  from run have "JsonConfig_write (root_of cfg) ?w3 = (r, w')"
    by (simp add: sub_set_def sub_result[OF a] and_then_def th ConfigMixin_set_def o2
        write_cfg_root del: thaw.simps)
  from guards_write[OF this g3(1)] g3(2) g2(2) g1(2) show ?thesis by simp
qed

lemma get_and_set_counter:
  assumes g: "guards mi m w"
    and v: "map_of (heap w m) ''last_schedule_id'' = Some (VInt v)"
    and run: "ConfigMixin_get_and_set (JsonConfigRef mi) ''last_schedule_id'' (max_id i) w = (r, w')"
  shows "guards mi m w' \<and> map_of (heap w' m) ''last_schedule_id'' = Some (VInt (max v i))"
proof -
  have o: "opts (configs w mi) = m" using g by (simp add: guards_def)
  let ?w1 = "setitem m ''last_schedule_id'' (VInt (max v i)) w"
  have mx: "max_id i (VInt v) = Inr (VInt (max v i))"
    by (simp add: max_id_def max_def)
  from run have wr: "JsonConfig_write mi ?w1 = (r, w')"
    by (simp add: ConfigMixin_get_and_set_def o v mx)
  have g1: "guards mi m ?w1" by (rule guards_setitem_own[OF g]) simp
  have "map_of (heap ?w1 m) ''last_schedule_id'' = Some (VInt (max v i))"
    by (simp add: setitem_def update_conv')
  with guards_write[OF wr g1] show ?thesis by simp
qed

subsection \<open>The file of the metadata document\<close>

lemma apart_frame:
  "apart mi pm s w \<Longrightarrow> configs w' = configs w \<Longrightarrow> stores w' = stores w \<Longrightarrow>
   next_config w' = next_config w \<Longrightarrow> apart mi pm s w'"
  by (simp add: apart_def)

lemma apart_grows: "grows w w' \<Longrightarrow> apart mi pm s w \<Longrightarrow> apart mi pm s w' \<and> fs w' pm = fs w pm"
  by (simp add: grows_def apart_def)

lemma apart_persists: "persists w w' \<Longrightarrow> apart mi pm s w \<Longrightarrow> apart mi pm s w'"
  by (simp add: persists_def apart_def)

lemma write_other_file:
  "JsonConfig_write n w = (r, w') \<Longrightarrow> path (configs w n) \<noteq> p \<Longrightarrow> fs w' p = fs w p"
  by (drule JsonConfig_write_cases) (auto simp: update_last_date_def)

lemma apart_write:
  assumes "apart mi pm s w" "JsonConfig_write n w = (r, w')" "n < next_config w" "n \<noteq> mi"
  shows "apart mi pm s w' \<and> fs w' pm = fs w pm \<and> next_config w' = next_config w"
proof -
  have "path (configs w n) \<noteq> pm" using assms(1,3,4) by (simp add: apart_def)
  from write_other_file[OF assms(2) this]
    apart_persists[OF JsonConfig_write_persists[OF assms(2)] assms(1)]
    JsonConfig_write_persists[OF assms(2)]
  show ?thesis by (simp add: persists_def)
qed

lemma apart_setitem:
  "apart mi pm s w \<Longrightarrow> apart mi pm s (setitem a k v w) \<and> fs (setitem a k v w) pm = fs w pm"
  by (simp add: apart_def setitem_def)

lemma apart_set_opts:
  "apart mi pm s w \<Longrightarrow> apart mi pm s (set_opts n a w) \<and> fs (set_opts n a w) pm = fs w pm"
  by (auto simp: apart_def set_opts_def)

lemma apart_update_last_date:
  "apart mi pm s w \<Longrightarrow>
   apart mi pm s (update_last_date n w) \<and> fs (update_last_date n w) pm = fs w pm"
  by (auto simp: apart_def update_last_date_def)

lemma apart_add_missing:
  "add_missing n t items b w = (r, w') \<Longrightarrow> apart mi pm s w \<Longrightarrow>
   apart mi pm s w' \<and> fs w' pm = fs w pm \<and> next_config w' = next_config w"
proof (induction items arbitrary: w b)
  case Nil
  then show ?case by simp
next
  case (Cons kv items)
  show ?case
  proof (cases "contains (heap w (opts (configs w n))) (fst kv)")
    case True
    with Cons.prems(1) have "add_missing n t items b w = (r, w')" by simp
    from Cons.IH[OF this Cons.prems(2)] show ?thesis .
  next
    case False
    show ?thesis
    proof (cases "map_of (heap w t) (fst kv)")
      case None
      with False Cons.prems show ?thesis by simp
    next
      case (Some x)
      let ?w1 = "setitem (opts (configs w n)) (fst kv) x w"
      from False Some Cons.prems(1) have r: "add_missing n t items True ?w1 = (r, w')" by simp
      from apart_setitem[OF Cons.prems(2)] have a: "apart mi pm s ?w1" "fs ?w1 pm = fs w pm"
        by simp_all
      have "next_config ?w1 = next_config w" by (simp add: setitem_def)
      with Cons.IH[OF r a(1)] a(2) show ?thesis by simp
    qed
  qed
qed

lemma apart_load:
  assumes g: "apart mi pm s w" and n: "n < next_config w" "n \<noteq> mi"
    and run: "JsonConfig_load n w = (r, w')"
  shows "apart mi pm s w' \<and> fs w' pm = fs w pm \<and> next_config w' = next_config w"
proof (cases "fs w (path (configs w n))")
  case None
  with run g show ?thesis by (simp add: JsonConfig_load_def)
next
  case (Some f)
  show ?thesis
  proof (cases "content f")
    case Corrupt
    with Some run g show ?thesis by (simp add: JsonConfig_load_def)
  next
    case (Doc ms)
    obtain d w1 where th: "thaw_items [] ms w = (d, w1)" by force
    obtain a0 w2 where a0: "alloc d w1 = (a0, w2)" by force
    obtain a w3 where a: "alloc (heap w2 a0) w2 = (a, w3)" by force
    let ?w4 = "update_last_date n (set_opts n a w3)"
    have "grows w w3"
      by (rule grows_trans[OF grows_trans[OF thaw_grows(3)[OF th] grows_alloc[OF a0]]
            grows_alloc[OF a]])
    from apart_grows[OF this g] have g3: "apart mi pm s w3" "fs w3 pm = fs w pm"
      and n3: "next_config w3 = next_config w" using \<open>grows w w3\<close> by (simp_all add: grows_def)
    have g4: "apart mi pm s ?w4" "fs ?w4 pm = fs w pm" and n4: "next_config ?w4 = next_config w"
      using apart_set_opts[OF g3(1), of n a] apart_update_last_date[of mi pm s "set_opts n a w3" n]
        g3(2) n3
      by (simp_all add: update_last_date_def set_opts_def)
    show ?thesis
    proof (cases "template (configs ?w4 n)")
      case None
      with Some Doc th a0 a run have "w' = ?w4" by (simp add: JsonConfig_load_def Let_def)
      with g4 n4 show ?thesis by simp
    next
      case (Some t)
      obtain rb w5 where am: "add_missing n t (heap ?w4 t) False ?w4 = (rb, w5)" by force
      from apart_add_missing[OF am g4(1)] g4(2) n4
      have g5: "apart mi pm s w5" "fs w5 pm = fs w pm" "next_config w5 = next_config w"
        by simp_all
      have n5: "n < next_config w5" using g5(3) n(1) by simp
      from \<open>fs w (path (configs w n)) = Some f\<close> Doc th a0 a Some am run
      have w': "(case rb of Inl e \<Rightarrow> (Inl e, w5)
                 | Inr b \<Rightarrow> if b then JsonConfig_write n w5 else (Inr (), w5)) = (r, w')"
        by (simp add: JsonConfig_load_def Let_def and_then_def split: sum.splits)
      show ?thesis
      proof (cases rb)
        case (Inl e)
        with w' g5 show ?thesis by auto
      next
        case (Inr b)
        show ?thesis
        proof (cases b)
          case True
          with Inr w' have "JsonConfig_write n w5 = (r, w')" by simp
          from apart_write[OF g5(1) this n5 n(2)] g5(2,3) show ?thesis by simp
        next
          case False
          with Inr w' g5 show ?thesis by auto
        qed
      qed
    qed
  qed
qed

lemma apart_create:
  assumes g: "apart mi pm s w" and n: "n < next_config w" "n \<noteq> mi"
    and run: "JsonConfig_create n w = (r, w')"
  shows "apart mi pm s w' \<and> fs w' pm = fs w pm \<and> next_config w' = next_config w"
proof (cases "template (configs w n)")
  case None
  with run have "JsonConfig_write n w = (r, w')" by (simp add: JsonConfig_create_def)
  from apart_write[OF g this n] show ?thesis .
next
  case (Some t)
  obtain a w1 where a: "alloc (heap w t) w = (a, w1)" by force
  from apart_grows[OF grows_alloc[OF a] g] grows_alloc[OF a]
  have g1: "apart mi pm s w1" "fs w1 pm = fs w pm" "next_config w1 = next_config w"
    by (simp_all add: grows_def)
  from apart_set_opts[OF g1(1), of n a]
  have g2: "apart mi pm s (set_opts n a w1)" "fs (set_opts n a w1) pm = fs w1 pm" by simp_all
  have n2: "next_config (set_opts n a w1) = next_config w" using g1(3) by (simp add: set_opts_def)
  from Some a run have "JsonConfig_write n (set_opts n a w1) = (r, w')"
    by (simp add: JsonConfig_create_def)
  from apart_write[OF g2(1) this _ n(2)] n2 n(1) g2(2) g1(2) show ?thesis by simp
qed

lemma apart_JsonConfig:
  assumes g: "apart mi pm s w" and p: "p \<noteq> pm" and run: "JsonConfig p t cd w = (r, w')"
  shows "apart mi pm s w' \<and> fs w' pm = fs w pm \<and>
         (\<forall>c. r = Inr c \<longrightarrow> root_of c < next_config w' \<and> root_of c \<noteq> mi)"
proof -
  obtain a w1 where a: "alloc [] w = (a, w1)" by force
  from apart_grows[OF grows_alloc[OF a] g]
  have g1: "apart mi pm s w1" "fs w1 pm = fs w pm" by simp_all
  define n where "n = next_config w1"
  define w2 where "w2 = w1\<lparr>configs := (configs w1)(n :=
                        \<lparr>opts = a, path = p, template = t, check_date = cd,
                         last_readwrite_date = None\<rparr>),
                     next_config := Suc n\<rparr>"
  have n: "n \<noteq> mi" "n < next_config w2" using g1(1) by (auto simp: apart_def n_def w2_def)
  have g2: "apart mi pm s w2" "fs w2 pm = fs w1 pm"
    using g1(1) p by (auto simp: apart_def less_Suc_eq list_all_iff n_def w2_def)
  obtain ri w3 where i: "JsonConfig_init n w2 = (ri, w3)" by force
  have g3: "apart mi pm s w3 \<and> fs w3 pm = fs w2 pm \<and> next_config w3 = next_config w2"
  proof (cases "fs w2 (path (configs w2 n)) = None")
    case True
    with i have "JsonConfig_create n w2 = (ri, w3)" by (simp add: JsonConfig_init_def)
    from apart_create[OF g2(1) n(2,1) this] show ?thesis .
  next
    case False
    with i have "JsonConfig_load n w2 = (ri, w3)" by (simp add: JsonConfig_init_def)
    from apart_load[OF g2(1) n(2,1) this] show ?thesis .
  qed
  have "JsonConfig p t cd w = and_then (JsonConfig_init n w2) (\<lambda>_ w3. (Inr (JsonConfigRef n), w3))"
    by (simp add: JsonConfig_def a Let_def n_def w2_def)
  with run i have "w' = w3" "\<forall>c. r = Inr c \<longrightarrow> c = JsonConfigRef n"
    by (auto simp: and_then_def split: sum.splits)
  with g3 g2 g1 n show ?thesis by auto
qed

lemma apart_get_template:
  assumes g: "apart mi pm s w" and run: "get_template s' cid w = (r, w')"
  shows "apart mi pm s w' \<and> fs w' pm = fs w pm"
proof -
  have "w' = w \<or> (\<exists>a. alloc [] w = (a, w'))"
    using run
    by (auto simp: get_template_def split: if_splits option.splits val.splits prod.splits)
  then show ?thesis
  proof
    assume "w' = w" with g show ?thesis by simp
  next
    assume "\<exists>a. alloc [] w = (a, w')"
    then obtain a where "alloc [] w = (a, w')" ..
    from apart_grows[OF grows_alloc[OF this] g] show ?thesis .
  qed
qed

lemma inside_cfg_loc: "\<not> inside (db_path st) pm \<Longrightarrow> cfg_loc st cid \<noteq> pm"
  by (auto simp: inside_def cfg_loc_def)

lemma update_values:
  "set (map snd (AList.update k v al)) \<subseteq> insert v (set (map snd al))"
  by (induction al) auto

lemma apart_create_config:
  assumes g: "apart mi pm s w" and run: "create_config s cid w = (r, w')"
  shows "apart mi pm s w' \<and> fs w' pm = fs w pm"
proof -
  obtain rt w1 where t: "get_template s cid w = (rt, w1)" by force
  from apart_get_template[OF g t] have g1: "apart mi pm s w1" "fs w1 pm = fs w pm" by simp_all
  show ?thesis
  proof (cases rt)
    case (Inl e)
    with run t have "w' = w1" by (simp add: create_config_def and_then_def)
    with g1 show ?thesis by simp
  next
    case (Inr tm)
    obtain rc w2 where c: "JsonConfig (cfg_loc (stores w1 s) cid) tm False w1 = (rc, w2)"
      by force
    have "cfg_loc (stores w1 s) cid \<noteq> pm"
      using g1(1) inside_cfg_loc[of "stores w1 s" pm cid] by (simp add: apart_def)
    from apart_JsonConfig[OF g1(1) this c]
    have g2: "apart mi pm s w2" "fs w2 pm = fs w1 pm"
      "\<forall>c. rc = Inr c \<longrightarrow> root_of c < next_config w2 \<and> root_of c \<noteq> mi"
      by simp_all
    show ?thesis
    proof (cases rc)
      case (Inl e)
      with run t Inr c have "w' = w2" by (simp add: create_config_def and_then_def)
      with g2 g1 show ?thesis by simp
    next
      case (Inr cf)
      with run t \<open>rt = Inr tm\<close> c
      have w': "w' = w2\<lparr>stores := (stores w2)(s :=
                   (stores w2 s)\<lparr>db := AList.update cid cf (db (stores w2 s))\<rparr>)\<rparr>"
        by (simp add: create_config_def and_then_def)
      have cf: "root_of cf < next_config w2 \<and> root_of cf \<noteq> mi" using g2(3) Inr by simp
      have "list_all (\<lambda>r. root_of r < next_config w2 \<and> root_of r \<noteq> mi)
              (map snd (AList.update cid cf (db (stores w2 s))))"
        using g2(1) cf update_values[of cid cf "db (stores w2 s)"]
        unfolding apart_def list_all_iff by blast
      with g2(1) have "apart mi pm s w'" unfolding w' apart_def by simp
      moreover have "fs w' pm = fs w2 pm" unfolding w' by simp
      ultimately show ?thesis using g2 g1 by simp
    qed
  qed
qed

lemma apart_get_config:
  assumes g: "apart mi pm s w" and run: "get_config s cid w = (r, w')"
  shows "apart mi pm s w' \<and> fs w' pm = fs w pm \<and>
         (\<forall>cfg. r = Inr cfg \<longrightarrow> root_of cfg < next_config w' \<and> root_of cfg \<noteq> mi)"
proof -
  obtain rc w1 where c: "(if \<not> contains (db (stores w s)) cid then create_config s cid w
                          else (Inr (), w)) = (rc, w1)" by force
  have g1: "apart mi pm s w1 \<and> fs w1 pm = fs w pm"
  proof (cases "contains (db (stores w s)) cid")
    case True
    with c g show ?thesis by simp
  next
    case False
    with c have "create_config s cid w = (rc, w1)" by simp
    from apart_create_config[OF g this] show ?thesis .
  qed
  from run c have w': "w' = w1"
    and lk: "\<forall>cfg. r = Inr cfg \<longrightarrow> map_of (db (stores w1 s)) cid = Some cfg"
    by (auto simp: get_config_def and_then_def split: sum.splits option.splits)
  have "root_of cfg < next_config w1 \<and> root_of cfg \<noteq> mi" if "r = Inr cfg" for cfg
  proof -
    from lk that have "(cid, cfg) \<in> set (db (stores w1 s))" by (auto dest: map_of_SomeD)
    then have "cfg \<in> set (map snd (db (stores w1 s)))" by force
    with g1 show ?thesis unfolding apart_def list_all_iff by blast
  qed
  with g1 w' show ?thesis by simp
qed

lemma apart_sub_set:
  assumes g: "apart mi pm s w" and c: "root_of cfg < next_config w" "root_of cfg \<noteq> mi"
    and run: "sub_set cfg ''cron'' h w = (r, w')"
  shows "apart mi pm s w' \<and> fs w' pm = fs w pm"
proof (cases "\<exists>a. map_of (heap w (opts_of w cfg)) ''cron'' = Some (VDict a)")
  case False
  with run have "w' = w"
    by (auto simp: sub_set_def SubconfigMixin_sub_def and_then_def
        split: option.splits val.splits)
  with g show ?thesis by simp
next
  case True
  then obtain a where a: "map_of (heap w (opts_of w cfg)) ''cron'' = Some (VDict a)" ..
  let ?i = "next_view w"
  let ?w1 = "w\<lparr>views := (views w)(?i := a), next_view := Suc ?i\<rparr>"
  have g1: "apart mi pm s ?w1" "fs ?w1 pm = fs w pm" "next_config ?w1 = next_config w"
    using g by (simp_all add: apart_def)
  obtain v w2 where th: "thaw (JObj (as_dict h)) ?w1 = (v, w2)" by force
  from apart_grows[OF thaw_grows(1)[OF th] g1(1)] thaw_grows(1)[OF th]
  have g2: "apart mi pm s w2" "fs w2 pm = fs ?w1 pm" "next_config w2 = next_config ?w1"
    by (simp_all add: grows_def)
  from thaw_grows(1)[OF th] have "views w2 = views ?w1" by (simp add: grows_def)
  then have o2: "views w2 ?i = a" by simp
  let ?w3 = "setitem a (str (header_id h)) v w2"
  from apart_setitem[OF g2(1), of a "str (header_id h)" v]
  have g3: "apart mi pm s ?w3" "fs ?w3 pm = fs w2 pm" by simp_all
  have n3: "root_of cfg < next_config ?w3" using c(1) g2(3) g1(3) by (simp add: setitem_def)
  from run have "JsonConfig_write (root_of cfg) ?w3 = (r, w')"
    by (simp add: sub_set_def sub_result[OF a] and_then_def th ConfigMixin_set_def o2
        write_cfg_root del: thaw.simps)
  from apart_write[OF g3(1) this n3 c(2)] g3(2) g2(2) g1(2) show ?thesis by simp
qed

lemma file_counter_other: "fs w' p = fs w p \<Longrightarrow> file_counter p w' = file_counter p w"
  by (simp add: file_counter_def)

lemma write_counter:
  assumes wr: "JsonConfig_write mi w = (r, w')"
    and v: "map_of (heap w (opts (configs w mi))) ''last_schedule_id'' = Some (VInt x)"
  shows "(r = Inr () \<longrightarrow> file_counter (path (configs w mi)) w' = Some (JInt x)) \<and>
         (\<forall>p. file_counter p w' = file_counter p w \<or> file_counter p w' = None \<or>
              file_counter p w' = Some (JInt x))"
proof -
  let ?pm = "path (configs w mi)"
  from JsonConfig_write_cases[OF wr] show ?thesis
  proof (elim disjE conjE exE)
    fix ms
    assume r: "r = Inr ()"
      and f: "freeze_items (depth_limit w) (heap w) (heap w (opts (configs w mi))) = Some ms"
      and w': "w' = update_last_date mi
                 (w\<lparr>fs := (fs w)(?pm \<mapsto> \<lparr>content = Doc ms, mtime = now w\<rparr>)\<rparr>)"
    from freeze_items_lookup[OF f v] have m: "map_of ms ''last_schedule_id'' = Some (JInt x)"
      by simp
    have "fs w' = (fs w)(?pm \<mapsto> \<lparr>content = Doc ms, mtime = now w\<rparr>)"
      unfolding w' by (simp add: update_last_date_def)
    with m show ?thesis by (simp add: file_counter_def)
  next
    assume "r = Inl EncodeError"
      and "w' = w\<lparr>fs := (fs w)(?pm \<mapsto> \<lparr>content = Corrupt, mtime = now w\<rparr>)\<rparr>"
    then show ?thesis by (simp add: file_counter_def)
  next
    assume "r = Inl TypeError" "w' = w"
    then show ?thesis by simp
  next
    assume "r = Inl ConfigException" "w' = w"
    then show ?thesis by simp
  qed
qed

lemma get_and_set_file:
  assumes g: "guards mi m w"
    and v: "map_of (heap w m) ''last_schedule_id'' = Some (VInt v)"
    and run: "ConfigMixin_get_and_set (JsonConfigRef mi) ''last_schedule_id'' (max_id i) w = (r, w')"
  shows "path (configs w' mi) = path (configs w mi) \<and>
         (r = Inr () \<longrightarrow> file_counter (path (configs w mi)) w' = Some (JInt (max v i))) \<and>
         (\<forall>p. file_counter p w' = file_counter p w \<or> file_counter p w' = None \<or>
              file_counter p w' = Some (JInt (max v i))) \<and>
         (apart mi pm s w \<longrightarrow> apart mi pm s w')"
proof -
  have o: "opts (configs w mi) = m" using g by (simp add: guards_def)
  let ?w1 = "setitem m ''last_schedule_id'' (VInt (max v i)) w"
  have mx: "max_id i (VInt v) = Inr (VInt (max v i))"
    by (simp add: max_id_def max_def)
  from run have wr: "JsonConfig_write mi ?w1 = (r, w')"
    by (simp add: ConfigMixin_get_and_set_def o v mx)
  have c1: "configs ?w1 = configs w" "fs ?w1 = fs w" by (simp_all add: setitem_def)
  have v1: "map_of (heap ?w1 (opts (configs ?w1 mi))) ''last_schedule_id'' = Some (VInt (max v i))"
    by (simp add: setitem_def o update_conv')
  have f1: "file_counter p ?w1 = file_counter p w" for p
    by (rule file_counter_other) (simp add: c1)
  from JsonConfig_write_persists[OF wr]
  have p: "path (configs w' mi) = path (configs w mi)" by (simp add: persists_def c1)
  have a: "apart mi pm s w'" if "apart mi pm s w"
    using apart_persists[OF JsonConfig_write_persists[OF wr]] apart_setitem[OF that] by blast
  from write_counter[OF wr v1] p a show ?thesis by (simp add: c1 f1)
qed

lemma cfg_sched_create_step:
  assumes safe: "counter_safe c"
    and cnt: "last_schedule_id c = Some (VInt v)"
    and run: "cfg_sched_create h c = (r, c')"
  shows "counter_safe c' \<and>
         (\<exists>v'. last_schedule_id c' = Some (VInt v') \<and> v \<le> v' \<and> v' \<le> max v (header_id h) \<and>
               (r = Inr () \<longrightarrow>
                  v' = max v (header_id h) \<and> durable_last_schedule_id c' = Some (JInt v')) \<and>
               (files_apart c \<longrightarrow>
                  files_apart c' \<and>
                  (durable_last_schedule_id c' = durable_last_schedule_id c \<or>
                   durable_last_schedule_id c' = None \<or>
                   durable_last_schedule_id c' = Some (JInt v'))))"
proof -
  from safe obtain mi where mc: "monkycfg c = JsonConfigRef mi"
    by (auto simp: counter_safe_def split: cref.splits)
  define m where "m = opts (configs (sys c) mi)"
  define pm where "pm = path (configs (sys c) mi)"
  define s where "s = job_db c"
  have g: "guards mi m (sys c)" using safe by (simp add: counter_safe_def mc m_def)
  have v: "map_of (heap (sys c) m) ''last_schedule_id'' = Some (VInt v)"
    using cnt by (simp add: last_schedule_id_def mc m_def)
  have d: "durable_last_schedule_id c = file_counter pm (sys c)"
    by (simp add: durable_last_schedule_id_def mc pm_def)
  have ap: "apart mi pm s (sys c)" if "files_apart c"
    using that by (simp add: files_apart_def mc pm_def s_def)
  have fin: ?thesis
    if t: "monkycfg c' = JsonConfigRef mi" "job_db c' = job_db c" "guards mi m (sys c')"
      "map_of (heap (sys c') m) ''last_schedule_id'' = Some (VInt v'')"
      "v'' = v \<or> v'' = max v (header_id h)"
      "r = Inr () \<longrightarrow> v'' = max v (header_id h) \<and>
         file_counter (path (configs (sys c') mi)) (sys c') = Some (JInt v'')"
      "files_apart c \<longrightarrow> apart mi pm s (sys c') \<and>
         (file_counter pm (sys c') = file_counter pm (sys c) \<or>
          file_counter pm (sys c') = None \<or> file_counter pm (sys c') = Some (JInt v''))"
    for v''
  proof -
    have 1: "counter_safe c'" using t(1,3) by (auto simp: counter_safe_def guards_def)
    have 2: "last_schedule_id c' = Some (VInt v'')"
      using t(1,3,4) by (simp add: last_schedule_id_def guards_def)
    have 3: "v \<le> v''" "v'' \<le> max v (header_id h)" using t(5) by auto
    have 4: "durable_last_schedule_id c' = file_counter (path (configs (sys c') mi)) (sys c')"
      by (simp add: durable_last_schedule_id_def t(1))
    have 5: "files_apart c' \<and>
             (durable_last_schedule_id c' = durable_last_schedule_id c \<or>
              durable_last_schedule_id c' = None \<or>
              durable_last_schedule_id c' = Some (JInt v''))" if fa: "files_apart c"
    proof -
      from t(7) fa have a: "apart mi pm s (sys c')" by simp
      then have p: "path (configs (sys c') mi) = pm" by (simp add: apart_def)
      from a p have "files_apart c'" by (simp add: files_apart_def t(1,2) s_def)
      with t(7) fa show ?thesis unfolding 4 p d by simp
    qed
    from 1 2 3 5 t(6) show ?thesis unfolding 4 by blast
  qed
  show ?thesis
  proof (cases "guild_id h \<in> set (guilds c)")
    case False
    with run have "c' = c" "r = Inl AttributeError"
      by (simp_all add: cfg_sched_create_def get_jobcfg_for_header_def and_next_def)
    with fin[of v] mc g v ap show ?thesis by simp
  next
    case True
    obtain rg w1 where gc: "get_config (job_db c) (str (guild_id h)) (sys c) = (rg, w1)"
      by force
    from guards_get_config[OF g gc] have g1: "guards mi m w1" "heap w1 m = heap (sys c) m"
      by simp_all
    have a1: "apart mi pm s w1 \<and> file_counter pm w1 = file_counter pm (sys c) \<and>
              (\<forall>cfg. rg = Inr cfg \<longrightarrow> root_of cfg < next_config w1 \<and> root_of cfg \<noteq> mi)"
      if "files_apart c"
      using apart_get_config[OF ap[OF that] gc[folded s_def]] file_counter_other by blast
    show ?thesis
    proof (cases rg)
      case (Inl e)
      with run True gc have "c' = c\<lparr>sys := w1\<rparr>" "r = Inl e"
        by (simp_all add: cfg_sched_create_def get_jobcfg_for_header_def and_next_def lift_def)
      with fin[of v] mc g1 v a1 show ?thesis by simp
    next
      case (Inr cfg)
      obtain rs w2 where ss: "sub_set cfg ''cron'' h w1 = (rs, w2)" by force
      from guards_sub_set[OF g1(1) ss] have g2: "guards mi m w2" "heap w2 m = heap w1 m"
        by simp_all
      have a2: "apart mi pm s w2 \<and> file_counter pm w2 = file_counter pm (sys c)"
        if fa: "files_apart c"
      proof -
        from a1[OF fa] Inr have a: "apart mi pm s w1" "file_counter pm w1 = file_counter pm (sys c)"
          "root_of cfg < next_config w1" "root_of cfg \<noteq> mi" by simp_all
        from apart_sub_set[OF a(1,3,4) ss] a(2) file_counter_other[of w2 pm w1]
        show ?thesis by simp
      qed
      show ?thesis
      proof (cases rs)
        case (Inl e)
        with run True gc Inr ss have "c' = c\<lparr>sys := w2\<rparr>" "r = Inl e"
          by (simp_all add: cfg_sched_create_def get_jobcfg_for_header_def and_next_def
              lift_def)
        with fin[of v] mc g2 g1 v a2 show ?thesis by simp
      next
        case (Inr u)
        obtain w3 where gs: "ConfigMixin_get_and_set (JsonConfigRef mi) ''last_schedule_id''
                          (max_id (header_id h)) w2 = (r, w3)" and c': "c' = c\<lparr>sys := w3\<rparr>"
          using run True gc \<open>rg = Inr cfg\<close> ss Inr
          by (auto simp: cfg_sched_create_def get_jobcfg_for_header_def and_next_def lift_def
              mc split: prod.splits)
        have v2: "map_of (heap w2 m) ''last_schedule_id'' = Some (VInt v)"
          using v g2 g1 by simp
        from get_and_set_counter[OF g2(1) v2 gs]
        have g3: "guards mi m w3"
          "map_of (heap w3 m) ''last_schedule_id'' = Some (VInt (max v (header_id h)))"
          by simp_all
        from get_and_set_file[OF g2(1) v2 gs, of pm s]
        have f3: "path (configs w3 mi) = path (configs w2 mi)"
          "r = Inr () \<longrightarrow> file_counter (path (configs w2 mi)) w3 = Some (JInt (max v (header_id h)))"
          "file_counter pm w3 = file_counter pm w2 \<or> file_counter pm w3 = None \<or>
             file_counter pm w3 = Some (JInt (max v (header_id h)))"
          "apart mi pm s w2 \<longrightarrow> apart mi pm s w3"
          by simp_all
        have 6: "r = Inr () \<longrightarrow> max v (header_id h) = max v (header_id h) \<and>
           file_counter (path (configs (sys c') mi)) (sys c') = Some (JInt (max v (header_id h)))"
          using f3(1,2) c' by simp
        have 7: "files_apart c \<longrightarrow> apart mi pm s (sys c') \<and>
           (file_counter pm (sys c') = file_counter pm (sys c) \<or>
            file_counter pm (sys c') = None \<or>
            file_counter pm (sys c') = Some (JInt (max v (header_id h))))"
          using a2 f3(3,4) c' by auto
        have "monkycfg c' = JsonConfigRef mi" "job_db c' = job_db c" "guards mi m (sys c')"
          "map_of (heap (sys c') m) ''last_schedule_id'' = Some (VInt (max v (header_id h)))"
          using mc g3 c' by simp_all
        from fin[OF this _ 6 7] show ?thesis by simp
      qed
    qed
  qed
qed

lemma deliver_append: "deliver (hs @ hs') c = deliver hs' (deliver hs c)"
  by (induction hs arbitrary: c) simp_all

lemma Max_insert_max:
  "finite A \<Longrightarrow> Max (insert (max v i) A) = Max (insert (v::int) (insert i A))"
  by (cases "A = {}") (simp_all add: max.assoc)

lemma Max_insert_le:
  assumes "finite A" "v' \<le> max (v::int) i"
  shows "Max (insert v' A) \<le> Max (insert v (insert i A))"
proof (rule Max.boundedI)
  let ?S = "insert v (insert i A)"
  have fin: "finite ?S" using assms(1) by simp
  show "finite (insert v' A)" using assms(1) by simp
  show "insert v' A \<noteq> {}" by simp
  fix a assume a: "a \<in> insert v' A"
  have "v \<le> Max ?S" "i \<le> Max ?S"
    by (rule Max_ge[OF fin], simp)+
  then have "max v i \<le> Max ?S" by (rule max.boundedI)
  with assms(2) have "v' \<le> Max ?S" by (rule order_trans)
  moreover have "a \<le> Max ?S" if "a \<in> A"
    by (rule Max_ge[OF fin]) (simp add: that)
  ultimately show "a \<le> Max ?S" using a by blast
qed

lemma deliver_counter:
  assumes "counter_safe c" "last_schedule_id c = Some (VInt v)"
  shows "counter_safe (deliver hs c) \<and>
         (\<exists>v1. last_schedule_id (deliver hs c) = Some (VInt v1) \<and> v \<le> v1 \<and>
               v1 \<le> Max (insert v (header_id ` set hs)) \<and>
               (all_complete hs c \<longrightarrow> v1 = Max (insert v (header_id ` set hs))))"
  using assms
proof (induction hs arbitrary: c v)
  case Nil
  then show ?case by simp
next
  case (Cons h hs)
  let ?c1 = "snd (cfg_sched_create h c)"
  let ?A = "header_id ` set hs"
  have run: "cfg_sched_create h c = (fst (cfg_sched_create h c), ?c1)" by simp
  from cfg_sched_create_step[OF Cons.prems run] obtain v' where
    s1: "counter_safe ?c1" and c1: "last_schedule_id ?c1 = Some (VInt v')"
    and le: "v \<le> v'" "v' \<le> max v (header_id h)"
    and eq: "fst (cfg_sched_create h c) = Inr () \<longrightarrow> v' = max v (header_id h)"
    by blast
  from Cons.IH[OF s1 c1] obtain v1 where
    s2: "counter_safe (deliver hs ?c1)"
    and c2: "last_schedule_id (deliver hs ?c1) = Some (VInt v1)"
    and le2: "v' \<le> v1" "v1 \<le> Max (insert v' ?A)"
    and eq2: "all_complete hs ?c1 \<longrightarrow> v1 = Max (insert v' ?A)"
    by blast
  have f: "finite ?A" by simp
  have im: "header_id ` set (h # hs) = insert (header_id h) ?A" by simp
  have a: "v1 \<le> Max (insert v (header_id ` set (h # hs)))"
    unfolding im by (rule order_trans[OF le2(2) Max_insert_le[OF f le(2)]])
  have b: "v1 = Max (insert v (header_id ` set (h # hs)))" if "all_complete (h # hs) c"
  proof -
    from that eq eq2 have "v' = max v (header_id h)" "v1 = Max (insert v' ?A)" by simp_all
    then show ?thesis unfolding im using Max_insert_max[OF f, of v "header_id h"]
      by (simp only:)
  qed
  show ?case using s2 c2 le(1) le2(1) a b by auto
qed

lemma deliver_file:
  assumes "counter_safe c" "files_apart c" "last_schedule_id c = Some (VInt v)" "d0 \<le> v"
    "\<forall>x. durable_last_schedule_id c = Some (JInt x) \<longrightarrow> d0 \<le> x \<and> x \<le> v"
  shows "files_apart (deliver hs c) \<and>
         (\<exists>v1. last_schedule_id (deliver hs c) = Some (VInt v1) \<and>
            (\<forall>x. durable_last_schedule_id (deliver hs c) = Some (JInt x) \<longrightarrow> d0 \<le> x \<and> x \<le> v1))"
  using assms
proof (induction hs arbitrary: c v)
  case Nil
  then show ?case by simp
next
  case (Cons h hs)
  let ?c1 = "snd (cfg_sched_create h c)"
  have run: "cfg_sched_create h c = (fst (cfg_sched_create h c), ?c1)" by simp
  from cfg_sched_create_step[OF Cons.prems(1,3) run] Cons.prems(2) obtain v' where
    s1: "counter_safe ?c1" and c1: "last_schedule_id ?c1 = Some (VInt v')"
    and le: "v \<le> v'" and fa: "files_apart ?c1"
    and d: "durable_last_schedule_id ?c1 = durable_last_schedule_id c \<or>
            durable_last_schedule_id ?c1 = None \<or>
            durable_last_schedule_id ?c1 = Some (JInt v')"
    by blast
  have 1: "d0 \<le> v'" using Cons.prems(4) le by simp
  have 2: "\<forall>x. durable_last_schedule_id ?c1 = Some (JInt x) \<longrightarrow> d0 \<le> x \<and> x \<le> v'"
    using d Cons.prems(5) le 1 by auto
  from Cons.IH[OF s1 fa c1 1 2] show ?case by simp
qed

lemma all_complete_append:
  "all_complete (hs @ hs') c = (all_complete hs c \<and> all_complete hs' (deliver hs c))"
  by (induction hs arbitrary: c) simp_all

lemma all_complete_last: "all_complete hs c \<Longrightarrow> hs \<noteq> [] \<Longrightarrow> last_completes hs c"
  using all_complete_append[of "butlast hs" "[last hs]" c]
  by (simp add: last_completes_def)

lemma deliver_last:
  assumes "counter_safe c" "last_schedule_id c = Some (VInt v)" "last_completes hs c"
  shows "\<exists>v1. last_schedule_id (deliver hs c) = Some (VInt v1) \<and>
              durable_last_schedule_id (deliver hs c) = Some (JInt v1)"
proof -
  let ?c0 = "deliver (butlast hs) c"
  let ?c1 = "snd (cfg_sched_create (last hs) ?c0)"
  from assms(3) have ne: "hs \<noteq> []" and r: "fst (cfg_sched_create (last hs) ?c0) = Inr ()"
    by (simp_all add: last_completes_def)
  from deliver_counter[OF assms(1,2), of "butlast hs"] obtain v0 where
    s0: "counter_safe ?c0" and c0: "last_schedule_id ?c0 = Some (VInt v0)" by blast
  have run: "cfg_sched_create (last hs) ?c0 = (Inr (), ?c1)" using r by (simp add: prod_eq_iff)
  have "deliver hs c = deliver [last hs] ?c0"
    using deliver_append[of "butlast hs" "[last hs]" c] ne by simp
  then have e: "deliver hs c = ?c1" by simp
  from cfg_sched_create_step[OF s0 c0 run] show ?thesis unfolding e by blast
qed

text \<open>
  C7. The wrapper's metadata document exists and has a dictionary of its own, which is
  not the \<open>"cron"\<close> mapping of any dictionary, and holds the integer \<open>v\<close> as
  \<open>last_schedule_id\<close>. Schedule-created is delivered for the headers \<open>hs\<close>, and then
  for \<open>hs'\<close>, whatever the outcome of each delivery.

  In the document, the counter stays an integer and never decreases: after \<open>hs\<close> it is
  at least \<open>v\<close>, and after \<open>hs'\<close> at least what it was after \<open>hs\<close>. When every
  delivery of \<open>hs\<close> completed, it is the maximum of \<open>v\<close> and the ids of \<open>hs\<close>, in
  whatever order they came; so it is the maximum created id as soon as one id is not
  below \<open>v\<close>.

  On disk, the file of the metadata document holds the counter of the document after
  every delivery that completed, whatever happened to the deliveries before it: when
  every delivery of \<open>hs\<close> completed and there was one, the file holds the maximum of
  \<open>v\<close> and the ids of \<open>hs\<close>. When moreover no other document is written to that
  file, and the file did not hold more than the document to begin with, the integer in
  the file never exceeds the counter of the document and never decreases: whenever the
  file holds an integer after \<open>hs\<close>, it is at least what the file held at first, and
  what the file holds after \<open>hs'\<close>, if an integer, is at least that.
\<close>

theorem last_schedule_id_monotone:
  assumes "counter_safe c" "last_schedule_id c = Some (VInt v)"
  shows "\<exists>v1 v2. last_schedule_id (deliver hs c) = Some (VInt v1) \<and>
           last_schedule_id (deliver (hs @ hs') c) = Some (VInt v2) \<and>
           v \<le> v1 \<and> v1 \<le> v2 \<and>
           (all_complete hs c \<longrightarrow> v1 = Max (insert v (header_id ` set hs))) \<and>
           (all_complete hs c \<longrightarrow> hs \<noteq> [] \<longrightarrow> v \<le> Max (header_id ` set hs) \<longrightarrow>
              v1 = Max (header_id ` set hs)) \<and>
           (last_completes hs c \<longrightarrow> durable_last_schedule_id (deliver hs c) = Some (JInt v1)) \<and>
           (all_complete hs c \<longrightarrow> hs \<noteq> [] \<longrightarrow>
              durable_last_schedule_id (deliver hs c) =
                Some (JInt (Max (insert v (header_id ` set hs))))) \<and>
           (files_apart c \<longrightarrow>
            (\<forall>d. durable_last_schedule_id c = Some (JInt d) \<longrightarrow> d \<le> v) \<longrightarrow>
              (\<forall>d1. durable_last_schedule_id (deliver hs c) = Some (JInt d1) \<longrightarrow>
                 d1 \<le> v1 \<and>
                 (\<forall>d. durable_last_schedule_id c = Some (JInt d) \<longrightarrow> d \<le> d1) \<and>
                 (\<forall>d2. durable_last_schedule_id (deliver (hs @ hs') c) = Some (JInt d2) \<longrightarrow>
                    d1 \<le> d2 \<and> d2 \<le> v2)))"
proof -
  let ?c1 = "deliver hs c" and ?c2 = "deliver (hs @ hs') c"
  from deliver_counter[OF assms, of hs] obtain v1 where
    s: "counter_safe ?c1" and c1: "last_schedule_id ?c1 = Some (VInt v1)"
    and le: "v \<le> v1"
    and eq: "all_complete hs c \<longrightarrow> v1 = Max (insert v (header_id ` set hs))"
    by blast
  from deliver_counter[OF s c1, of hs'] obtain v2 where
    c2: "last_schedule_id ?c2 = Some (VInt v2)" and le2: "v1 \<le> v2"
    unfolding deliver_append by blast
  have mx: "Max (insert v (header_id ` set hs)) = Max (header_id ` set hs)"
    if "hs \<noteq> []" "v \<le> Max (header_id ` set hs)"
    using that by (simp add: max_def)
  have d1: "durable_last_schedule_id ?c1 = Some (JInt v1)" if "last_completes hs c"
    using deliver_last[OF assms that] c1 by simp
  have d2: "durable_last_schedule_id ?c1 = Some (JInt (Max (insert v (header_id ` set hs))))"
    if "all_complete hs c" "hs \<noteq> []"
    using d1[OF all_complete_last[OF that]] eq that(1) by simp
  have f: "d1 \<le> v1 \<and> (\<forall>d. durable_last_schedule_id c = Some (JInt d) \<longrightarrow> d \<le> d1) \<and>
           (\<forall>d2. durable_last_schedule_id ?c2 = Some (JInt d2) \<longrightarrow> d1 \<le> d2 \<and> d2 \<le> v2)"
    if fa: "files_apart c"
      and b: "\<forall>d. durable_last_schedule_id c = Some (JInt d) \<longrightarrow> d \<le> v"
      and d: "durable_last_schedule_id ?c1 = Some (JInt d1)" for d1
  proof -
    define d0 where "d0 = (case durable_last_schedule_id c of Some (JInt x) \<Rightarrow> x | _ \<Rightarrow> v)"
    have 1: "d0 \<le> v" using b by (auto simp: d0_def split: option.splits json.splits)
    have 2: "\<forall>x. durable_last_schedule_id c = Some (JInt x) \<longrightarrow> d0 \<le> x \<and> x \<le> v"
      using b by (auto simp: d0_def)
    from deliver_file[OF assms(1) fa assms(2) 1 2, of hs] c1 d
    have fa1: "files_apart ?c1" and 3: "d0 \<le> d1" "d1 \<le> v1" by auto
    have 4: "\<forall>d. durable_last_schedule_id c = Some (JInt d) \<longrightarrow> d \<le> d1"
      using 3(1) by (auto simp: d0_def)
    have 5: "\<forall>x. durable_last_schedule_id ?c1 = Some (JInt x) \<longrightarrow> d1 \<le> x \<and> x \<le> v1"
      using d 3(2) by simp
    from deliver_file[OF s fa1 c1 3(2) 5, of hs'] c2
    have "\<forall>d2. durable_last_schedule_id ?c2 = Some (JInt d2) \<longrightarrow> d1 \<le> d2 \<and> d2 \<le> v2"
      unfolding deliver_append by auto
    with 3(2) 4 show ?thesis by simp
  qed
  show ?thesis
  proof (rule exI[of _ v1], rule exI[of _ v2], intro conjI impI allI)
    show "last_schedule_id ?c1 = Some (VInt v1)" by (rule c1)
    show "last_schedule_id ?c2 = Some (VInt v2)" by (rule c2)
    show "v \<le> v1" by (rule le)
    show "v1 \<le> v2" by (rule le2)
    show "v1 = Max (insert v (header_id ` set hs))" if "all_complete hs c" using eq that by simp
    show "v1 = Max (header_id ` set hs)"
      if "all_complete hs c" "hs \<noteq> []" "v \<le> Max (header_id ` set hs)"
      using eq that mx by simp
    show "durable_last_schedule_id ?c1 = Some (JInt v1)" if "last_completes hs c"
      using d1 that by simp
    show "durable_last_schedule_id ?c1 = Some (JInt (Max (insert v (header_id ` set hs))))"
      if "all_complete hs c" "hs \<noteq> []" using d2 that by simp
  next
    fix d1 assume "files_apart c"
      "\<forall>d. durable_last_schedule_id c = Some (JInt d) \<longrightarrow> d \<le> v"
      "durable_last_schedule_id ?c1 = Some (JInt d1)"
    from f[OF this] show "d1 \<le> v1" by simp
  next
    fix d1 d assume "files_apart c"
      "\<forall>d. durable_last_schedule_id c = Some (JInt d) \<longrightarrow> d \<le> v"
      "durable_last_schedule_id ?c1 = Some (JInt d1)"
      and "durable_last_schedule_id c = Some (JInt d)"
    with f[of d1] show "d \<le> d1" by simp
  next
    fix d1 d2 assume a: "files_apart c"
      "\<forall>d. durable_last_schedule_id c = Some (JInt d) \<longrightarrow> d \<le> v"
      "durable_last_schedule_id ?c1 = Some (JInt d1)"
      and b: "durable_last_schedule_id ?c2 = Some (JInt d2)"
    from f[OF a] b show "d1 \<le> d2" by simp
    from f[OF a] b show "d2 \<le> v2" by simp
  qed
qed

theorem last_schedule_id_monotone_witness:
  "counter_safe zero_core \<and> last_schedule_id zero_core = Some (VInt 0) \<and>
   files_apart zero_core \<and> durable_last_schedule_id zero_core = Some (JInt 0) \<and>
   all_complete [example_header 3 7, example_header 1 7] zero_core \<and>
   last_completes [example_header 3 7] zero_core \<and>
   last_schedule_id (deliver [example_header 3 7] zero_core) = Some (VInt 3) \<and>
   last_schedule_id (deliver [example_header 3 7, example_header 1 7] zero_core) = Some (VInt 3) \<and>
   durable_last_schedule_id (deliver [example_header 3 7] zero_core) = Some (JInt 3) \<and>
   durable_last_schedule_id (deliver [example_header 3 7, example_header 1 7] zero_core) =
     Some (JInt 3)"
proof -
  let ?h3 = "example_header 3 7" and ?h1 = "example_header 1 7"
  have s: "counter_safe zero_core"
    by (simp add: counter_safe_def guards_def zero_core_def restart_core_def restart_world_def
        empty_world_def setitem_def external_edit_def)
  have c: "last_schedule_id zero_core = Some (VInt 0)"
    by (simp add: last_schedule_id_def zero_core_def restart_core_def restart_world_def
        empty_world_def setitem_def external_edit_def)
  have f: "files_apart zero_core"
    by (simp add: files_apart_def apart_def inside_def zero_core_def restart_core_def
        restart_world_def empty_world_def setitem_def external_edit_def less_Suc_eq
        numeral_2_eq_2)
  have d: "durable_last_schedule_id zero_core = Some (JInt 0)"
    by (simp add: durable_last_schedule_id_def file_counter_def zero_core_def restart_core_def
        restart_world_def empty_world_def setitem_def external_edit_def)
  have a: "all_complete [?h3, ?h1] zero_core"
    by (simp add: zero_core_def restart_core_def restart_world_def empty_world_def
        example_header_def core_defs db_defs mixin_defs cfg_defs)
  then have a1: "all_complete [?h3] zero_core" by simp
  then have l1: "last_completes [?h3] zero_core" by (simp add: last_completes_def)
  have m: "Max (insert (0::int) (header_id ` set [?h3])) = 3"
    "Max (insert (0::int) (header_id ` set [?h3, ?h1])) = 3"
    by (simp_all add: example_header_def)
  from last_schedule_id_monotone[OF s c, of "[?h3]" "[?h1]"] a1 l1 m(1)
  have 1: "last_schedule_id (deliver [?h3] zero_core) = Some (VInt 3)"
    "durable_last_schedule_id (deliver [?h3] zero_core) = Some (JInt 3)" by auto
  from last_schedule_id_monotone[OF s c, of "[?h3, ?h1]" "[]"] a m(2)
  have 2: "last_schedule_id (deliver [?h3, ?h1] zero_core) = Some (VInt 3)"
    "durable_last_schedule_id (deliver [?h3, ?h1] zero_core) = Some (JInt 3)" by auto
  show ?thesis using s c f d a l1 1 2 by simp
qed

section \<open>GuildStateDB: the cache and its deletion\<close>

lemma gs_get_cached:
  assumes "gs_get t e g = (Inr i, g1)"
  shows "gs_get t e g1 = (Inr i, g1)"
  using assms
  by (auto simp: gs_get_def get_of_type_def get_guild_and_id_def update_conv' Let_def
      split: sum.splits prod.splits option.splits guild_entity.splits if_splits)

lemma gs_get_stored:
  assumes "gs_get t e g = (Inr i, g1)"
  shows "\<exists>gld gid states. get_guild_and_id e g1 = Inr (gld, gid) \<and>
           map_of (statedb g1) (typekey t) = Some states \<and> map_of states gid = Some i"
  using assms
  by (auto simp: gs_get_def get_of_type_def get_guild_and_id_def update_conv' Let_def
      split: sum.splits prod.splits option.splits guild_entity.splits if_splits)

lemma delete_loop_raises:
  "contains states gid \<Longrightarrow> states \<in> set sts \<Longrightarrow> delete_loop sts gid = Inl TypeError"
  by (induction sts) auto

text \<open>
  C1. Two calls of \<open>get\<close> for a registered type and an entity, with no \<open>delete\<close>
  between them, return the same cached instance: the second call returns the instance of
  the first and changes nothing. After \<open>delete\<close> of the entity the next \<open>get\<close>
  should construct a new instance; the code does not do that:
  once \<open>get\<close> has cached an instance for the entity, \<open>delete\<close> of that entity raises
  TypeError (\<open>del guild_id[states]\<close> for \<open>del states[guild_id]\<close>) and removes
  nothing, so the next \<open>get\<close> returns the old instance again, not a new one.
\<close>

theorem GuildStateDB_delete_raises:
  assumes "gs_get t e g = (Inr i, g1)"
  shows "gs_get t e g1 = (Inr i, g1) \<and> gs_delete e g1 = (Inl TypeError, g1)"
proof -
  obtain gld gid states where a: "get_guild_and_id e g1 = Inr (gld, gid)"
    "map_of (statedb g1) (typekey t) = Some states" "map_of states gid = Some i"
    using gs_get_stored[OF assms] by blast
  have "states \<in> set (map snd (statedb g1))"
    using a(2) by (force dest: map_of_SomeD)
  moreover have "contains states gid"
    using a(3) by (simp add: contains_def)
  ultimately have "delete_loop (map snd (statedb g1)) gid = Inl TypeError"
    by (rule delete_loop_raises[rotated])
  then show ?thesis
    using a(1) gs_get_cached[OF assms] by (simp add: gs_delete_def)
qed

theorem GuildStateDB_delete_raises_witness:
  "gs_get counter_type (IdEntity 7) registry0 = (Inr counter7, registry1) \<and>
   gs_get counter_type (IdEntity 7) registry1 = (Inr counter7, registry1) \<and>
   gs_delete (IdEntity 7) registry1 = (Inl TypeError, registry1)"
proof -
  have g: "gs_get counter_type (IdEntity 7) registry0 = (Inr counter7, registry1)"
    by (simp add: gs_get_def get_guild_and_id_def get_of_type_def typekey_def Let_def
        counter_type_def registry0_def registry1_def counter7_def)
  from GuildStateDB_delete_raises[OF g] g show ?thesis by simp
qed

end
